theory Spec2Isabelle
  imports Complex_Main "HOL-Library.Word" "HOL-Library.Log_Nat" "HOL-Library.Signed_Division"
begin

unbundle bit_operations_syntax

section \<open>The QMC5883L compass driver\<close>

text \<open>
  A shallow embedding of \<^verbatim>\<open>QMC5883LCompass.cpp\<close> and \<^verbatim>\<open>QMC5883LCompass.h\<close>: the
  reading pipeline (\<^verbatim>\<open>read\<close>, \<^verbatim>\<open>_applyCalibration\<close>, \<^verbatim>\<open>_smoothing\<close>, \<^verbatim>\<open>_get\<close>) and
  the bearing functions (\<^verbatim>\<open>getBearing\<close>, \<^verbatim>\<open>getDirection\<close>).

  Integers. The bytes on the bus and the 16-bit reassembly are machine words. The
  values of the C types \<^verbatim>\<open>int\<close> and \<^verbatim>\<open>long\<close> are integers with the range written out:
  \<^verbatim>\<open>int\<close> has \<open>ib\<close> bits, 16 on AVR boards and 32 on the others, and \<open>ib\<close> is a parameter
  of every function that computes in \<^verbatim>\<open>int\<close>; \<^verbatim>\<open>long\<close> has 32 bits on all of them. A
  signed operation whose result leaves the range of its type is undefined behaviour, the
  fault \<open>IntOverflow\<close>; storing a \<^verbatim>\<open>long\<close> in an \<^verbatim>\<open>int\<close> reduces it modulo \<open>2 ^ ib\<close>
  (\<open>narrow\<close>), as the compilers of these boards do. Division of C integers truncates
  towards zero (\<open>sdiv\<close>); a zero divisor is a fault. The private members lose their
  leading underscore.

  Arrays. \<^verbatim>\<open>int v[3]\<close> is a function from the index, \<^verbatim>\<open>int h[10][3]\<close> a function of
  two indices. The driver indexes the axis arrays with the constants 0, 1, 2 only, and
  the history with \<^verbatim>\<open>_vScan\<close> and with loop counters below \<^verbatim>\<open>_smoothSteps - 1\<close>;
  \<^verbatim>\<open>setSmoothing\<close>, the only writer of \<^verbatim>\<open>_smoothSteps\<close>, keeps it at most 10, so these
  stay below 10.
\<close>

subsection \<open>Faults\<close>

datatype fault = DivisionByZero | FloatToIntUndefined | IndexOutOfBounds | IntOverflow

definition and_then :: "fault + 'a \<Rightarrow> ('a \<Rightarrow> fault + 'b) \<Rightarrow> fault + 'b" where
  "and_then r f = (case r of Inl e \<Rightarrow> Inl e | Inr v \<Rightarrow> f v)"

text \<open>
  The range of a signed type of \<open>bits\<close> bits, the result of a signed operation in that
  type, and the conversion of a wider value to it.
\<close>

definition int_ok :: "nat \<Rightarrow> int \<Rightarrow> bool" where
  "int_ok bits v \<longleftrightarrow> - (2 ^ (bits - 1)) \<le> v \<and> v < 2 ^ (bits - 1)"

definition checked :: "nat \<Rightarrow> int \<Rightarrow> fault + int" where
  "checked bits v = (if int_ok bits v then Inr v else Inl IntOverflow)"

definition narrow :: "nat \<Rightarrow> int \<Rightarrow> int" where
  "narrow bits v = (v + 2 ^ (bits - 1)) mod 2 ^ bits - 2 ^ (bits - 1)"

definition LONG_BITS :: nat where
  "LONG_BITS = 32"

definition c_div :: "nat \<Rightarrow> int \<Rightarrow> int \<Rightarrow> fault + int" where
  "c_div bits a b = (if b = 0 then Inl DivisionByZero else checked bits (a sdiv b))"

subsection \<open>Floating point\<close>

text \<open>
  A finite binary floating-point number is the rational it denotes. \<open>fl_round p x\<close> is
  the number with a significand of \<open>p\<close> bits nearest to \<open>x\<close>, ties to even: with
  \<open>2 ^ e \<le> \<bar>x\<bar> < 2 ^ (e + 1)\<close> the numbers around \<open>x\<close> are the multiples of
  \<open>2 ^ (e - p + 1)\<close>. \<^verbatim>\<open>float\<close> has 24 bits; \<^verbatim>\<open>double\<close> has 24 bits on AVR boards and
  53 elsewhere. The exponent range is not modelled: the driver's quotients and
  products of 16-bit and 32-bit integers stay far inside it. Infinities and NaN, which
  a division by zero produces, are the one value \<open>NonFinite\<close>; converting it to an
  integer is undefined behaviour.
\<close>

definition rnd_even :: "rat \<Rightarrow> int" where
  "rnd_even x = (let f = \<lfloor>x\<rfloor>; d = x - of_int f
     in if d < 1 / 2 then f else if 1 / 2 < d then f + 1 else if even f then f else f + 1)"

definition ilog2 :: "rat \<Rightarrow> int" where
  "ilog2 x = (if 1 \<le> x then bitlen \<lfloor>x\<rfloor> - 1 else - bitlen (\<lceil>1 / x\<rceil> - 1))"

definition fl_round :: "nat \<Rightarrow> rat \<Rightarrow> rat" where
  "fl_round p x = (if x = 0 then 0 else
     let e = ilog2 \<bar>x\<bar>; u = 2 powi (e - int p + 1)
     in of_int (rnd_even (x / u)) * u)"

datatype cfloat = Finite rat | NonFinite

definition FLT_MANT_DIG :: nat where
  "FLT_MANT_DIG = 24"

definition float_of_int :: "nat \<Rightarrow> int \<Rightarrow> rat" where
  "float_of_int p n = fl_round p (of_int n)"

definition fl_div :: "nat \<Rightarrow> rat \<Rightarrow> rat \<Rightarrow> cfloat" where
  "fl_div p x y = (if y = 0 then NonFinite else Finite (fl_round p (x / y)))"

definition fl_mul :: "nat \<Rightarrow> rat \<Rightarrow> cfloat \<Rightarrow> cfloat" where
  "fl_mul p x s = (case s of Finite y \<Rightarrow> Finite (fl_round p (x * y)) | NonFinite \<Rightarrow> NonFinite)"

definition trunc_rat :: "rat \<Rightarrow> int" where
  "trunc_rat x = (if 0 \<le> x then \<lfloor>x\<rfloor> else \<lceil>x\<rceil>)"

text \<open>
  Conversion of a floating-point number to an integer type truncates, and is defined
  only when the truncated value fits the type: \<^verbatim>\<open>int\<close> has \<open>ib\<close> bits,
  \<^verbatim>\<open>unsigned long\<close> has 32 bits, \<^verbatim>\<open>byte\<close> has 8.
\<close>

definition float_to_int :: "nat \<Rightarrow> cfloat \<Rightarrow> fault + int" where
  "float_to_int ib f = (case f of
       Finite x \<Rightarrow> (let t = trunc_rat x
                    in if int_ok ib t then Inr t else Inl FloatToIntUndefined)
     | NonFinite \<Rightarrow> Inl FloatToIntUndefined)"

definition float_to_unsigned :: "nat \<Rightarrow> cfloat \<Rightarrow> fault + nat" where
  "float_to_unsigned bits f = (case f of
       Finite x \<Rightarrow> (let t = trunc_rat x
                    in if 0 \<le> t \<and> t < 2 ^ bits then Inr (nat t) else Inl FloatToIntUndefined)
     | NonFinite \<Rightarrow> Inl FloatToIntUndefined)"

subsection \<open>The bus\<close>

text \<open>
  Modelled from the spec: the bus transport (\<^verbatim>\<open>Wire\<close>), an external collaborator with
  the operations \<^verbatim>\<open>beginTransmission\<close>, \<^verbatim>\<open>write\<close>, \<^verbatim>\<open>endTransmission\<close>,
  \<^verbatim>\<open>requestFrom\<close> and \<^verbatim>\<open>read\<close>. The bus holds the status its transmissions end with
  (0 is success), the bytes the device will deliver, the receive buffer, and a log of
  the operations performed. \<^verbatim>\<open>Wire.read()\<close> returns an \<^verbatim>\<open>int\<close>: the next byte of the
  buffer, or -1 when the buffer is empty. Only the low 16 bits of that \<^verbatim>\<open>int\<close> reach the
  driver's \<^verbatim>\<open>int16_t\<close> cast, so it is a 16-bit word here.
\<close>

datatype wire_op =
    BeginTransmission nat
  | WriteByte nat
  | EndTransmission
  | RequestFrom nat nat
  | ReadByte

record wire =
  w_status :: nat
  w_device :: "8 word list"
  w_rxbuf :: "8 word list"
  w_log :: "wire_op list"

definition wire_beginTransmission :: "wire \<Rightarrow> nat \<Rightarrow> wire" where
  "wire_beginTransmission w addr = w\<lparr>w_log := w_log w @ [BeginTransmission addr]\<rparr>"

definition wire_write :: "wire \<Rightarrow> nat \<Rightarrow> wire" where
  "wire_write w b = w\<lparr>w_log := w_log w @ [WriteByte b]\<rparr>"

definition wire_endTransmission :: "wire \<Rightarrow> nat \<times> wire" where
  "wire_endTransmission w = (w_status w, w\<lparr>w_log := w_log w @ [EndTransmission]\<rparr>)"

definition wire_requestFrom :: "wire \<Rightarrow> nat \<Rightarrow> nat \<Rightarrow> wire" where
  "wire_requestFrom w addr n =
     w\<lparr>w_rxbuf := take n (w_device w), w_device := drop n (w_device w),
       w_log := w_log w @ [RequestFrom addr n]\<rparr>"

definition wire_read :: "wire \<Rightarrow> 16 word \<times> wire" where
  "wire_read w = (case w_rxbuf w of
       [] \<Rightarrow> (- 1, w\<lparr>w_log := w_log w @ [ReadByte]\<rparr>)
     | b # bs \<Rightarrow> (ucast b, w\<lparr>w_rxbuf := bs, w_log := w_log w @ [ReadByte]\<rparr>))"

subsection \<open>The driver's state\<close>

text \<open>
  The fields of \<^verbatim>\<open>class QMC5883LCompass\<close>. \<^verbatim>\<open>_vScan\<close> is an \<^verbatim>\<open>int\<close> that starts at 0
  and is only reset to 0 or incremented, so it is a natural number; \<^verbatim>\<open>byte\<close> values are
  natural numbers too.
\<close>

record compass =
  smoothUse :: bool
  smoothSteps :: nat
  smoothAdvanced :: bool
  ADDR :: nat
  vRaw :: "nat \<Rightarrow> int"
  vHistory :: "nat \<Rightarrow> nat \<Rightarrow> int"
  vScan :: nat
  vTotals :: "nat \<Rightarrow> int"
  vSmooth :: "nat \<Rightarrow> int"
  calibrationUse :: bool
  vCalibration :: "nat \<Rightarrow> nat \<Rightarrow> int"
  vCalibrated :: "nat \<Rightarrow> int"

text \<open>
  The object after construction. The header gives \<^verbatim>\<open>_vHistory\<close>, \<^verbatim>\<open>_vCalibration\<close> and
  \<^verbatim>\<open>_vCalibrated\<close> no initialiser and the constructor's body is empty: they are zero in
  an object of static storage duration (the global \<^verbatim>\<open>QMC5883LCompass compass;\<close> of the
  example sketches), which is the object modelled here.
\<close>

definition new_compass :: compass where
  "new_compass = \<lparr>smoothUse = False, smoothSteps = 5, smoothAdvanced = False, ADDR = 13,
     vRaw = (\<lambda>i. 0), vHistory = (\<lambda>j i. 0), vScan = 0, vTotals = (\<lambda>i. 0),
     vSmooth = (\<lambda>i. 0), calibrationUse = False, vCalibration = (\<lambda>i k. 0),
     vCalibrated = (\<lambda>i. 0)\<rparr>"

definition setADDR :: "compass \<Rightarrow> nat \<Rightarrow> compass" where
  "setADDR c b = c\<lparr>ADDR := b\<rparr>"

definition setSmoothing :: "compass \<Rightarrow> nat \<Rightarrow> bool \<Rightarrow> compass" where
  "setSmoothing c steps adv =
     c\<lparr>smoothUse := True, smoothSteps := (if steps > 10 then 10 else steps),
       smoothAdvanced := (if adv = True then True else False)\<rparr>"

definition setCalibration :: "compass \<Rightarrow> int \<Rightarrow> int \<Rightarrow> int \<Rightarrow> int \<Rightarrow> int \<Rightarrow> int \<Rightarrow> compass" where
  "setCalibration c x_min x_max y_min y_max z_min z_max =
     c\<lparr>calibrationUse := True,
       vCalibration := (\<lambda>i k.
         if i = 0 \<and> k = 0 then x_min else if i = 0 \<and> k = 1 then x_max
         else if i = 1 \<and> k = 0 then y_min else if i = 1 \<and> k = 1 then y_max
         else if i = 2 \<and> k = 0 then z_min else if i = 2 \<and> k = 1 then z_max
         else vCalibration c i k)\<rparr>"

subsection \<open>Calibration\<close>

text \<open>
  \<^verbatim>\<open>_applyCalibration\<close>. The sums and differences of the bounds, the sum of the three
  half ranges and \<^verbatim>\<open>_vRaw[0] - x_offset\<close> are \<^verbatim>\<open>int\<close> operations; the divisions by the
  constants 2 and 3 cannot overflow. Each scale is \<^verbatim>\<open>(float)avg_delta / x_avg_delta\<close>, a
  \<^verbatim>\<open>float\<close> division; each result is the \<^verbatim>\<open>float\<close> product
  \<^verbatim>\<open>(_vRaw[0] - x_offset) * x_scale\<close> converted to \<^verbatim>\<open>int\<close>.
\<close>

definition applyCalibration :: "nat \<Rightarrow> compass \<Rightarrow> fault + compass" where
  "applyCalibration ib c =
     and_then (checked ib (vCalibration c 0 0 + vCalibration c 0 1)) (\<lambda>x_sum.
     and_then (checked ib (vCalibration c 1 0 + vCalibration c 1 1)) (\<lambda>y_sum.
     and_then (checked ib (vCalibration c 2 0 + vCalibration c 2 1)) (\<lambda>z_sum.
     and_then (checked ib (vCalibration c 0 1 - vCalibration c 0 0)) (\<lambda>x_diff.
     and_then (checked ib (vCalibration c 1 1 - vCalibration c 1 0)) (\<lambda>y_diff.
     and_then (checked ib (vCalibration c 2 1 - vCalibration c 2 0)) (\<lambda>z_diff.
     let x_offset = x_sum sdiv 2; y_offset = y_sum sdiv 2; z_offset = z_sum sdiv 2;
         x_avg_delta = x_diff sdiv 2; y_avg_delta = y_diff sdiv 2; z_avg_delta = z_diff sdiv 2
     in
     and_then (checked ib (x_avg_delta + y_avg_delta)) (\<lambda>xy.
     and_then (checked ib (xy + z_avg_delta)) (\<lambda>xyz.
     let avg_delta = xyz sdiv 3;
         x_scale = fl_div FLT_MANT_DIG (float_of_int FLT_MANT_DIG avg_delta)
                     (float_of_int FLT_MANT_DIG x_avg_delta);
         y_scale = fl_div FLT_MANT_DIG (float_of_int FLT_MANT_DIG avg_delta)
                     (float_of_int FLT_MANT_DIG y_avg_delta);
         z_scale = fl_div FLT_MANT_DIG (float_of_int FLT_MANT_DIG avg_delta)
                     (float_of_int FLT_MANT_DIG z_avg_delta)
     in
     and_then (checked ib (vRaw c 0 - x_offset)) (\<lambda>dx.
     and_then (float_to_int ib (fl_mul FLT_MANT_DIG (float_of_int FLT_MANT_DIG dx) x_scale)) (\<lambda>cx.
     and_then (checked ib (vRaw c 1 - y_offset)) (\<lambda>dy.
     and_then (float_to_int ib (fl_mul FLT_MANT_DIG (float_of_int FLT_MANT_DIG dy) y_scale)) (\<lambda>cy.
     and_then (checked ib (vRaw c 2 - z_offset)) (\<lambda>dz.
     and_then (float_to_int ib (fl_mul FLT_MANT_DIG (float_of_int FLT_MANT_DIG dz) z_scale)) (\<lambda>cz.
     Inr (c\<lparr>vCalibrated := (vCalibrated c)(0 := cx, 1 := cy, 2 := cz)\<rparr>)))))))))))))))"

subsection \<open>Smoothing\<close>

text \<open>
  The two scans of \<^verbatim>\<open>_smoothing\<close>: \<^verbatim>\<open>for (int j = 0; j < _smoothSteps - 1; j++)\<close> keeps
  in \<^verbatim>\<open>max\<close> (in \<^verbatim>\<open>min\<close>) the index of the largest (smallest) value of axis \<open>i\<close> seen so
  far, starting from index 0.
\<close>

definition scan_max :: "(nat \<Rightarrow> nat \<Rightarrow> int) \<Rightarrow> nat \<Rightarrow> nat \<Rightarrow> nat" where
  "scan_max h steps i = fold (\<lambda>j mx. if h j i > h mx i then j else mx) [0..<steps - 1] 0"

definition scan_min :: "(nat \<Rightarrow> nat \<Rightarrow> int) \<Rightarrow> nat \<Rightarrow> nat \<Rightarrow> nat" where
  "scan_min h steps i = fold (\<lambda>k mn. if h k i < h mn i then k else mn) [0..<steps - 1] 0"

text \<open>
  The body of the loop over the axes, for axis \<open>i\<close>, statement by statement. The
  running total is a \<^verbatim>\<open>long\<close> and is updated in \<^verbatim>\<open>long\<close>;
  \<^verbatim>\<open>_vHistory[max][i] + _vHistory[min][i]\<close> adds two \<^verbatim>\<open>int\<close> values in \<^verbatim>\<open>int\<close>; the
  subtraction from the total and the division are \<^verbatim>\<open>long\<close> operations, and the
  quotient is stored in the \<^verbatim>\<open>int _vSmooth[i]\<close>.
\<close>

definition drop_oldest :: "nat \<Rightarrow> compass \<Rightarrow> fault + compass" where
  "drop_oldest i c =
     (if vTotals c i \<noteq> 0
      then and_then (checked LONG_BITS (vTotals c i - vHistory c (vScan c) i))
             (\<lambda>t. Inr (c\<lparr>vTotals := (vTotals c)(i := t)\<rparr>))
      else Inr c)"

definition store_sample :: "nat \<Rightarrow> compass \<Rightarrow> compass" where
  "store_sample i c =
     c\<lparr>vHistory := (vHistory c)(vScan c := (vHistory c (vScan c))
           (i := (if calibrationUse c then vCalibrated c i else vRaw c i)))\<rparr>"

definition add_newest :: "nat \<Rightarrow> compass \<Rightarrow> fault + compass" where
  "add_newest i c =
     and_then (checked LONG_BITS (vTotals c i + vHistory c (vScan c) i))
       (\<lambda>t. Inr (c\<lparr>vTotals := (vTotals c)(i := t)\<rparr>))"

definition smooth_value :: "nat \<Rightarrow> nat \<Rightarrow> compass \<Rightarrow> fault + compass" where
  "smooth_value ib i c =
     (if smoothAdvanced c
      then (let mx = scan_max (vHistory c) (smoothSteps c) i;
                mn = scan_min (vHistory c) (smoothSteps c) i
            in and_then (checked ib (vHistory c mx i + vHistory c mn i))
                 (\<lambda>s. and_then (checked LONG_BITS (vTotals c i - s))
                 (\<lambda>n. and_then (c_div LONG_BITS n (int (smoothSteps c) - 2))
                 (\<lambda>q. Inr (c\<lparr>vSmooth := (vSmooth c)(i := narrow ib q)\<rparr>)))))
      else and_then (c_div LONG_BITS (vTotals c i) (int (smoothSteps c)))
             (\<lambda>q. Inr (c\<lparr>vSmooth := (vSmooth c)(i := narrow ib q)\<rparr>)))"

definition smooth_axis :: "nat \<Rightarrow> nat \<Rightarrow> compass \<Rightarrow> fault + compass" where
  "smooth_axis ib i c =
     and_then (drop_oldest i c)
       (\<lambda>c1. and_then (add_newest i (store_sample i c1))
       (\<lambda>c3. smooth_value ib i c3))"

definition smoothing :: "nat \<Rightarrow> compass \<Rightarrow> fault + compass" where
  "smoothing ib c =
    (let c0 = (if int (vScan c) > int (smoothSteps c) - 1 then c\<lparr>vScan := 0\<rparr> else c)
     in and_then (smooth_axis ib 0 c0)
          (\<lambda>c1. and_then (smooth_axis ib 1 c1)
          (\<lambda>c2. and_then (smooth_axis ib 2 c2)
          (\<lambda>c3. Inr (c3\<lparr>vScan := vScan c3 + 1\<rparr>)))))"

subsection \<open>Reading\<close>

text \<open>
  \<^verbatim>\<open>(int)(int16_t)(Wire.read() | Wire.read() << 8)\<close>: the first byte read is the low
  byte, the second the high byte (the operands are taken left to right, as the driver
  assumes).
\<close>

definition assemble16 :: "16 word \<Rightarrow> 16 word \<Rightarrow> int" where
  "assemble16 lo hi = sint (lo OR push_bit 8 hi)"

definition read :: "nat \<Rightarrow> compass \<Rightarrow> wire \<Rightarrow> fault + (compass \<times> wire)" where
  "read ib c w =
    (let w1 = wire_beginTransmission w (ADDR c);
         w2 = wire_write w1 0;
         (err, w3) = wire_endTransmission w2
     in if err = 0
        then (let w4 = wire_requestFrom w3 (ADDR c) 6;
                  (x_lo, w5) = wire_read w4; (x_hi, w6) = wire_read w5;
                  (y_lo, w7) = wire_read w6; (y_hi, w8) = wire_read w7;
                  (z_lo, w9) = wire_read w8; (z_hi, w10) = wire_read w9;
                  c1 = c\<lparr>vRaw := (vRaw c)(0 := assemble16 x_lo x_hi,
                                              1 := assemble16 y_lo y_hi,
                                              2 := assemble16 z_lo z_hi)\<rparr>
              in and_then (if calibrationUse c1 then applyCalibration ib c1 else Inr c1)
                   (\<lambda>c2. and_then (if smoothUse c2 then smoothing ib c2 else Inr c2)
                   (\<lambda>c3. Inr (c3, w10))))
        else Inr (c, w3))"

subsection \<open>The exposed axis values\<close>

definition get :: "compass \<Rightarrow> nat \<Rightarrow> int" where
  "get c i = (if smoothUse c then vSmooth c i
              else if calibrationUse c then vCalibrated c i
              else vRaw c i)"

definition getX :: "compass \<Rightarrow> int" where
  "getX c = get c 0"

definition getY :: "compass \<Rightarrow> int" where
  "getY c = get c 1"

definition getZ :: "compass \<Rightarrow> int" where
  "getZ c = get c 2"

subsection \<open>Bearing and direction\<close>

text \<open>
  \<^verbatim>\<open>getBearing\<close>. \<^verbatim>\<open>azimuth / 22.5\<close> is a \<^verbatim>\<open>double\<close> division (\<open>dp\<close> is the number of
  significand bits of \<^verbatim>\<open>double\<close> on the board), and its result initialises the
  \<^verbatim>\<open>unsigned long a\<close>. \<^verbatim>\<open>r = a - (int)a\<close> is computed in \<^verbatim>\<open>unsigned long\<close>, modulo
  \<open>2 ^ 32\<close>. \<^verbatim>\<open>ceil(a)\<close> and \<^verbatim>\<open>floor(a)\<close> take \<open>a\<close> converted to \<^verbatim>\<open>double\<close>; the result
  initialises the \<^verbatim>\<open>byte sexdec\<close>.
\<close>

definition getBearing :: "nat \<Rightarrow> int \<Rightarrow> fault + nat" where
  "getBearing dp azimuth =
     and_then (float_to_unsigned 32 (fl_div dp (float_of_int dp azimuth) (45 / 2)))
       (\<lambda>a. let r = nat ((int a - int a) mod 2 ^ 32);
                 ad = fl_round dp (of_nat a)
             in float_to_unsigned 8
                  (Finite (if (1 / 2 :: rat) \<le> of_nat r then of_int \<lceil>ad\<rceil> else of_int \<lfloor>ad\<rfloor>)))"

definition bearings :: "string list" where
  "bearings =
    [''  N'', ''NNE'', '' NE'', ''ENE'', ''  E'', ''ESE'', '' SE'', ''SSE'',
     ''  S'', ''SSW'', '' SW'', ''WSW'', ''  W'', ''WNW'', '' NW'', ''NNW'']"

text \<open>
  \<^verbatim>\<open>getDirection\<close> copies the three characters of row \<open>d\<close> of the 16-row table into
  the caller's array; a row index of 16 or more reads outside the table.
\<close>

definition getDirection :: "nat \<Rightarrow> int \<Rightarrow> fault + string" where
  "getDirection dp azimuth =
     and_then (getBearing dp azimuth)
       (\<lambda>d. if d < length bearings
            then Inr [bearings ! d ! 0, bearings ! d ! 1, bearings ! d ! 2]
            else Inl IndexOutOfBounds)"

subsection \<open>Reference definitions\<close>

text \<open>
  The two bytes the device sends for a signed 16-bit value, low byte first, and the six
  bytes of a sample: the inverse of the reassembly in \<^verbatim>\<open>read\<close>.
\<close>

definition low_byte :: "16 word \<Rightarrow> 8 word" where
  "low_byte v = ucast v"

definition high_byte :: "16 word \<Rightarrow> 8 word" where
  "high_byte v = ucast (drop_bit 8 v)"

definition sample_bytes :: "int \<Rightarrow> int \<Rightarrow> int \<Rightarrow> 8 word list" where
  "sample_bytes x y z =
     [low_byte (word_of_int x), high_byte (word_of_int x),
      low_byte (word_of_int y), high_byte (word_of_int y),
      low_byte (word_of_int z), high_byte (word_of_int z)]"

text \<open>A bus whose transmissions end with \<open>status\<close> and whose device holds \<open>bytes\<close>.\<close>

definition bus :: "nat \<Rightarrow> 8 word list \<Rightarrow> wire" where
  "bus status bytes = \<lparr>w_status = status, w_device = bytes, w_rxbuf = [], w_log = []\<rparr>"

text \<open>One acquisition of the sample \<open>(x, y, z)\<close> over a working bus, and a run of them.\<close>

definition acquire :: "nat \<Rightarrow> compass \<Rightarrow> int \<times> int \<times> int \<Rightarrow> fault + compass" where
  "acquire ib c s = (case s of (x, y, z) \<Rightarrow>
     and_then (read ib c (bus 0 (sample_bytes x y z))) (\<lambda>r. Inr (fst r)))"

fun acquire_all :: "nat \<Rightarrow> compass \<Rightarrow> (int \<times> int \<times> int) list \<Rightarrow> fault + compass" where
  "acquire_all ib c [] = Inr c"
| "acquire_all ib c (s # ss) = and_then (acquire ib c s) (\<lambda>c'. acquire_all ib c' ss)"

text \<open>
  The smoothing window. \<open>slot c\<close> is the history row an update of \<open>c\<close> writes: the
  stored cursor, or 0 when the cursor exceeds \<^verbatim>\<open>_smoothSteps - 1\<close>. \<open>sample c i\<close> is the
  value the update stores for axis \<open>i\<close>, \<open>updated_history c\<close> the history after the
  update, and \<open>removed c i\<close> the sum of the two values the advanced mode takes out of
  the running sum of axis \<open>i\<close>. \<open>window_sum h n i\<close> adds the first \<open>n\<close> rows of axis \<open>i\<close>.
\<close>

definition slot :: "compass \<Rightarrow> nat" where
  "slot c = (if int (vScan c) > int (smoothSteps c) - 1 then 0 else vScan c)"

definition sample :: "compass \<Rightarrow> nat \<Rightarrow> int" where
  "sample c i = (if calibrationUse c then vCalibrated c i else vRaw c i)"

definition updated_history :: "compass \<Rightarrow> nat \<Rightarrow> nat \<Rightarrow> int" where
  "updated_history c = (\<lambda>j i. if j = slot c \<and> i < 3 then sample c i else vHistory c j i)"

definition removed :: "compass \<Rightarrow> nat \<Rightarrow> int" where
  "removed c i =
     updated_history c (scan_max (updated_history c) (smoothSteps c) i) i
     + updated_history c (scan_min (updated_history c) (smoothSteps c) i) i"

definition window_sum :: "(nat \<Rightarrow> nat \<Rightarrow> int) \<Rightarrow> nat \<Rightarrow> nat \<Rightarrow> int" where
  "window_sum h n i = sum_list (map (\<lambda>j. h j i) [0..<n])"

text \<open>What a caller sees after a run: the three exposed values; the running sum of an
  axis beside the sum of its window.\<close>

definition exposed :: "fault + compass \<Rightarrow> fault + (int \<times> int \<times> int)" where
  "exposed r = (case r of Inl f \<Rightarrow> Inl f | Inr c \<Rightarrow> Inr (getX c, getY c, getZ c))"

definition sum_and_window :: "fault + compass \<Rightarrow> nat \<Rightarrow> fault + (int \<times> int)" where
  "sum_and_window r i = (case r of Inl f \<Rightarrow> Inl f
     | Inr c \<Rightarrow> Inr (vTotals c i, window_sum (vHistory c) (smoothSteps c) i))"

text \<open>
  A state of advanced smoothing with window size 3 whose next sample, 100 on every axis,
  lands in the last row of the window, the row the scans leave out.
\<close>

definition quirk_state :: compass where
  "quirk_state = (setSmoothing new_compass 3 True)
     \<lparr>vRaw := (\<lambda>i. 100), vHistory := (\<lambda>j i. if j = 0 then 1 else if j = 1 then 2 else 0),
      vTotals := (\<lambda>i. 3), vScan := 2\<rparr>"

text \<open>
  The calibration as the specification words it: per axis the offset and the half
  range by integer division, the mean of the three half ranges by integer division, the
  scale as the \<^verbatim>\<open>float\<close> quotient of the mean and the half range, and the calibrated
  value as the \<^verbatim>\<open>float\<close> product of raw minus offset and the scale, truncated.
\<close>

definition cal_offset :: "compass \<Rightarrow> nat \<Rightarrow> int" where
  "cal_offset c i = (vCalibration c i 0 + vCalibration c i 1) sdiv 2"

definition cal_delta :: "compass \<Rightarrow> nat \<Rightarrow> int" where
  "cal_delta c i = (vCalibration c i 1 - vCalibration c i 0) sdiv 2"

definition cal_avg_delta :: "compass \<Rightarrow> int" where
  "cal_avg_delta c = (cal_delta c 0 + cal_delta c 1 + cal_delta c 2) sdiv 3"

definition cal_scale :: "compass \<Rightarrow> nat \<Rightarrow> rat" where
  "cal_scale c i = fl_round FLT_MANT_DIG
     (float_of_int FLT_MANT_DIG (cal_avg_delta c) / float_of_int FLT_MANT_DIG (cal_delta c i))"

definition cal_value :: "compass \<Rightarrow> nat \<Rightarrow> int" where
  "cal_value c i = trunc_rat (fl_round FLT_MANT_DIG
     (float_of_int FLT_MANT_DIG (vRaw c i - cal_offset c i) * cal_scale c i))"

text \<open>
  The bearing as the specification words it: the azimuth divided by 22.5, rounded to
  the nearest integer with a fractional part of at least one half going up, modulo 16.
\<close>

definition bearing_spec :: "int \<Rightarrow> int" where
  "bearing_spec azimuth =
     (let q = (of_int azimuth :: rat) / (45 / 2);
          n = (if 1 / 2 \<le> q - of_int \<lfloor>q\<rfloor> then \<lfloor>q\<rfloor> + 1 else \<lfloor>q\<rfloor>)
      in n mod 16)"

subsection \<open>The smoothing update in closed form\<close>

text \<open>
  The loop body of \<^verbatim>\<open>_smoothing\<close> for one axis as a single record update, with the
  condition under which it runs without a fault; \<open>smooth_axis_step\<close> below proves it
  equal to \<open>smooth_axis\<close>.
\<close>

definition axis_total :: "compass \<Rightarrow> nat \<Rightarrow> int" where
  "axis_total c i = (if vTotals c i \<noteq> 0 then vTotals c i - vHistory c (vScan c) i
                     else vTotals c i) + sample c i"

definition axis_history :: "compass \<Rightarrow> nat \<Rightarrow> nat \<Rightarrow> nat \<Rightarrow> int" where
  "axis_history c i = (vHistory c)(vScan c := (vHistory c (vScan c))(i := sample c i))"

definition axis_removed :: "compass \<Rightarrow> nat \<Rightarrow> int" where
  "axis_removed c i =
     axis_history c i (scan_max (axis_history c i) (smoothSteps c) i) i
     + axis_history c i (scan_min (axis_history c i) (smoothSteps c) i) i"

definition axis_quotient :: "compass \<Rightarrow> nat \<Rightarrow> int" where
  "axis_quotient c i =
     (if smoothAdvanced c then (axis_total c i - axis_removed c i) sdiv (int (smoothSteps c) - 2)
      else axis_total c i sdiv int (smoothSteps c))"

definition axis_ok :: "nat \<Rightarrow> compass \<Rightarrow> nat \<Rightarrow> bool" where
  "axis_ok ib c i \<longleftrightarrow>
     (vTotals c i = 0 \<or> int_ok LONG_BITS (vTotals c i - vHistory c (vScan c) i))
     \<and> int_ok LONG_BITS (axis_total c i)
     \<and> (if smoothAdvanced c
        then int_ok ib (axis_removed c i) \<and> int_ok LONG_BITS (axis_total c i - axis_removed c i)
             \<and> smoothSteps c \<noteq> 2
        else smoothSteps c \<noteq> 0)
     \<and> int_ok LONG_BITS (axis_quotient c i)"

definition axis_step :: "nat \<Rightarrow> nat \<Rightarrow> compass \<Rightarrow> compass" where
  "axis_step ib i c = c\<lparr>vTotals := (vTotals c)(i := axis_total c i), vHistory := axis_history c i,
                         vSmooth := (vSmooth c)(i := narrow ib (axis_quotient c i))\<rparr>"

definition adv_formula :: "nat \<Rightarrow> compass \<Rightarrow> nat \<Rightarrow> bool" where
  "adv_formula ib c i \<longleftrightarrow>
     vSmooth c i = narrow ib
       ((vTotals c i - (vHistory c (scan_max (vHistory c) (smoothSteps c) i) i
                        + vHistory c (scan_min (vHistory c) (smoothSteps c) i) i))
        sdiv (int (smoothSteps c) - 2))"

text \<open>
  \<open>same_axis d c k\<close>: the intermediate state \<open>d\<close> of an update of \<open>c\<close> still has the
  column, the running sum and the sample of axis \<open>k\<close> that \<open>c\<close> has. \<open>smoothed ib c\<close> is
  the state after the three loop bodies and the increment of the cursor.
\<close>

definition same_axis :: "compass \<Rightarrow> compass \<Rightarrow> nat \<Rightarrow> bool" where
  "same_axis d c k \<longleftrightarrow>
     vScan d = slot c \<and> vTotals d k = vTotals c k \<and> (\<forall>j. vHistory d j k = vHistory c j k)
     \<and> sample d k = sample c k \<and> smoothAdvanced d = smoothAdvanced c
     \<and> smoothSteps d = smoothSteps c"

definition smoothed :: "nat \<Rightarrow> compass \<Rightarrow> compass" where
  "smoothed ib c = (axis_step ib 2 (axis_step ib 1 (axis_step ib 0 (c\<lparr>vScan := slot c\<rparr>))))
                     \<lparr>vScan := slot c + 1\<rparr>"

text \<open>
  A calibrated state whose X bounds are not symmetric: offset 10 on X, half range 100 on
  every axis, raw value 50 on every axis.
\<close>

definition tilted :: compass where
  "tilted = (setCalibration new_compass (- 90) 110 (- 100) 100 (- 100) 100)\<lparr>vRaw := (\<lambda>i. 50)\<rparr>"

section \<open>Properties\<close>

subsection \<open>Rounding\<close>

text \<open>
  The rounding of the floating-point model: \<open>ilog2\<close> is the binary exponent, integers
  below \<open>2 ^ p\<close> are exact, and the relative error of a rounded number is at most
  \<open>2 ^ - p\<close>.
\<close>

lemma rnd_even_of_int: "rnd_even (of_int n) = n"
  by (simp add: rnd_even_def)

lemma rnd_even_err: "\<bar>of_int (rnd_even x) - x\<bar> \<le> 1/2"
proof -
  have "0 \<le> x - of_int \<lfloor>x\<rfloor>" "x - of_int \<lfloor>x\<rfloor> < 1" by linarith+
  then show ?thesis
    by (auto simp: rnd_even_def Let_def abs_le_iff)
qed

lemma bitlen_pos: "0 < n \<Longrightarrow> 1 \<le> bitlen n"
  using bitlen_eq_zero_iff[of n] bitlen_nonneg[of n] by linarith

lemma ilog2_lower: assumes "0 < x" shows "2 powi (ilog2 x) \<le> x"
proof (cases "1 \<le> x")
  case True
  define n where "n = \<lfloor>x\<rfloor>"
  have n: "0 < n" using True by (simp add: n_def)
  have b: "1 \<le> bitlen n" using n by (rule bitlen_pos)
  have "(2::int) ^ nat (bitlen n - 1) \<le> n" using bitlen_bounds[OF n] by simp
  then have "rat_of_int (2 ^ nat (bitlen n - 1)) \<le> of_int n" by (simp only: of_int_le_iff)
  also have "\<dots> \<le> x" by (simp add: n_def)
  finally have "(2::rat) ^ nat (bitlen n - 1) \<le> x" by simp
  moreover have "ilog2 x = int (nat (bitlen n - 1))" using True b by (simp add: ilog2_def n_def)
  ultimately show ?thesis by (simp only: power_int_of_nat)
next
  case False
  define m where "m = \<lceil>1 / x\<rceil>"
  have y: "1 < 1 / x" using False assms by simp
  have m2: "2 \<le> m" using y unfolding m_def by linarith
  have m1: "0 < m - 1" using m2 by simp
  define L where "L = nat (bitlen (m - 1))"
  have "m - 1 < 2 ^ L" using bitlen_bounds[OF m1] by (simp add: L_def)
  then have "m \<le> 2 ^ L" by simp
  then have "rat_of_int m \<le> of_int (2 ^ L)" by (simp only: of_int_le_iff)
  then have "1 / x \<le> 2 ^ L" unfolding m_def by (simp add: ceiling_le_iff) 
  then have "1 \<le> 2 ^ L * x" using assms by (simp add: field_simps)
  then have "1 / 2 ^ L \<le> x" by (simp add: field_simps)
  moreover have "ilog2 x = - int L" using False bitlen_nonneg[of "m - 1"] by (simp add: ilog2_def m_def L_def)
  ultimately show ?thesis by (simp add: power_int_minus_divide)
qed

lemma ilog2_upper: assumes "0 < x" shows "x < 2 powi (ilog2 x + 1)"
proof (cases "1 \<le> x")
  case True
  define n where "n = \<lfloor>x\<rfloor>"
  have n: "0 < n" using True by (simp add: n_def)
  have b: "1 \<le> bitlen n" using n by (rule bitlen_pos)
  have "n < 2 ^ nat (bitlen n)" using bitlen_bounds[OF n] by simp
  then have "n + 1 \<le> 2 ^ nat (bitlen n)" by simp
  then have "rat_of_int (n + 1) \<le> of_int (2 ^ nat (bitlen n))" by (simp only: of_int_le_iff)
  moreover have "x < of_int (n + 1)" unfolding n_def by linarith
  ultimately have "x < 2 ^ nat (bitlen n)" by simp
  moreover have "ilog2 x + 1 = int (nat (bitlen n))" using True b by (simp add: ilog2_def n_def)
  ultimately show ?thesis by (simp only: power_int_of_nat)
next
  case False
  define m where "m = \<lceil>1 / x\<rceil>"
  have y: "1 < 1 / x" using False assms by simp
  have m2: "2 \<le> m" using y unfolding m_def by linarith
  have m1: "0 < m - 1" using m2 by simp
  have b: "1 \<le> bitlen (m - 1)" using m1 by (rule bitlen_pos)
  define K where "K = nat (bitlen (m - 1) - 1)"
  have "2 ^ K \<le> m - 1" using bitlen_bounds[OF m1] by (simp add: K_def)
  then have "rat_of_int (2 ^ K) \<le> of_int (m - 1)" by (simp only: of_int_le_iff)
  moreover have "rat_of_int (m - 1) < 1 / x" unfolding m_def by linarith
  ultimately have "2 ^ K < 1 / x" by simp
  then have "2 ^ K * x < 1" using assms by (simp add: field_simps)
  then have "x < 1 / 2 ^ K" by (simp add: field_simps)
  moreover have "ilog2 x + 1 = - int K" using False b by (simp add: ilog2_def m_def K_def)
  ultimately show ?thesis by (simp add: power_int_minus_divide)
qed

lemma fl_round_err: "\<bar>fl_round p x - x\<bar> \<le> \<bar>x\<bar> / 2 ^ p"
proof (cases "x = 0")
  case True then show ?thesis by (simp add: fl_round_def)
next
  case False
  define e where "e = ilog2 \<bar>x\<bar>"
  define u :: rat where "u = 2 powi (e - int p + 1)"
  have u: "0 < u" by (simp add: u_def)
  have fr: "fl_round p x = of_int (rnd_even (x / u)) * u"
    using False by (simp add: fl_round_def Let_def e_def u_def)
  have "fl_round p x - x = (of_int (rnd_even (x / u)) - x / u) * u"
    using u by (simp add: fr field_simps)
  then have "\<bar>fl_round p x - x\<bar> = \<bar>of_int (rnd_even (x / u)) - x / u\<bar> * u"
    using u by (simp add: abs_mult)
  also have "\<dots> \<le> (1/2) * u" using rnd_even_err[of "x / u"] u by (intro mult_right_mono) auto
  also have "(1/2) * u = 2 powi e / 2 ^ p"
    by (simp add: u_def power_int_add power_int_diff)
  also have "\<dots> \<le> \<bar>x\<bar> / 2 ^ p"
    using ilog2_lower[of "\<bar>x\<bar>"] False by (simp add: e_def divide_right_mono)
  finally show ?thesis .
qed

lemma fl_round_of_int:
  assumes "\<bar>n\<bar> < 2 ^ p"
  shows "fl_round p (of_int n) = of_int n"
proof (cases "n = 0")
  case True then show ?thesis by (simp add: fl_round_def)
next
  case False
  define a where "a = \<bar>n\<bar>"
  have a: "0 < a" using False by (simp add: a_def)
  have b2: "bitlen a \<le> int p" using assms by (simp add: bitlen_le_iff_power a_def)
  define k where "k = nat (int p - bitlen a)"
  have "1 \<le> a" using a by simp
  then have "rat_of_int 1 \<le> of_int a" by (simp only: of_int_le_iff)
  then have ge1: "1 \<le> \<bar>rat_of_int n\<bar>" by (simp add: a_def)
  have e: "ilog2 \<bar>rat_of_int n\<bar> = bitlen a - 1"
    using ge1 by (simp add: ilog2_def a_def flip: of_int_abs)
  have "ilog2 \<bar>rat_of_int n\<bar> - int p + 1 = - int k" using b2 by (simp add: e k_def)
  then have u: "(2::rat) powi (ilog2 \<bar>rat_of_int n\<bar> - int p + 1) = 1 / 2 ^ k"
    by (simp add: power_int_minus_divide)
  have "rat_of_int n / (1 / 2 ^ k) = of_int (n * 2 ^ k)" by simp
  then have "rnd_even (rat_of_int n / (1 / 2 ^ k)) = n * 2 ^ k"
    by (simp only: rnd_even_of_int)
  then show ?thesis using False by (simp add: fl_round_def Let_def u)
qed

lemma pow24_le: assumes "24 \<le> p" shows "(2::int) ^ 24 \<le> 2 ^ p"
  using assms by (intro power_increasing) auto

lemma fl_round_small_int:
  assumes "24 \<le> p" and "\<bar>n\<bar> \<le> 65536"
  shows "fl_round p (of_int n) = of_int n"
proof -
  have "\<bar>n\<bar> < 2 ^ 24" using assms(2) by simp
  also have "\<dots> \<le> 2 ^ p" using assms(1) by (rule pow24_le)
  finally show ?thesis by (rule fl_round_of_int)
qed

subsection \<open>Byte reassembly\<close>

lemma assemble16_split: "assemble16 (ucast (low_byte v)) (ucast (high_byte v)) = sint v"
proof -
  have "ucast (low_byte v) OR push_bit 8 (ucast (high_byte v)) = v"
    unfolding low_byte_def high_byte_def
    by (rule bit_word_eqI) (auto simp: bit_simps)
  then show ?thesis by (simp add: assemble16_def)
qed

lemma sint16_of_int:
  assumes "- 32768 \<le> k" and "k \<le> 32767"
  shows "sint (word_of_int k :: 16 word) = k"
  using assms by (simp add: sint_sbintrunc' signed_take_bit_int_eq_self)

text \<open>
  The same through \<^verbatim>\<open>read\<close>: with calibration and smoothing off, an acquisition over a
  working bus stores the sample the device sent.
\<close>

lemma acquire_raw:
  assumes "- 32768 \<le> x" "x \<le> 32767" "- 32768 \<le> y" "y \<le> 32767" "- 32768 \<le> z" "z \<le> 32767"
    and "\<not> calibrationUse c" "\<not> smoothUse c"
  shows "acquire ib c (x, y, z) = Inr (c\<lparr>vRaw := (vRaw c)(0 := x, 1 := y, 2 := z)\<rparr>)"
  using assms(7,8)
  by (simp add: acquire_def read_def bus_def sample_bytes_def wire_beginTransmission_def
      wire_write_def wire_endTransmission_def wire_requestFrom_def wire_read_def Let_def
      and_then_def assemble16_split sint16_of_int[OF assms(1,2)] sint16_of_int[OF assms(3,4)]
      sint16_of_int[OF assms(5,6)])

text \<open>
  C6. Every signed 16-bit value, split into its low and high byte and reassembled as
  \<^verbatim>\<open>low | high << 8\<close> read as a two's-complement 16-bit integer, comes back unchanged.
\<close>

theorem reassembly_roundtrip:
  assumes "- 32768 \<le> k" and "k \<le> 32767"
  shows "assemble16 (ucast (low_byte (word_of_int k))) (ucast (high_byte (word_of_int k))) = k"
  using assms by (simp only: assemble16_split sint16_of_int)

theorem reassembly_roundtrip_witness:
  "assemble16 (ucast (low_byte (word_of_int (- 32768)))) (ucast (high_byte (word_of_int (- 32768)))) = - 32768
   \<and> assemble16 (ucast (low_byte (word_of_int (- 1)))) (ucast (high_byte (word_of_int (- 1)))) = - 1
   \<and> assemble16 (ucast (low_byte (word_of_int 32767))) (ucast (high_byte (word_of_int 32767))) = 32767"
  using reassembly_roundtrip [of "- 32768"] reassembly_roundtrip [of "- 1"]
    reassembly_roundtrip [of 32767]
  by simp

subsection \<open>A failed bus transaction\<close>

text \<open>
  C3. When the register-pointer write of \<^verbatim>\<open>read\<close> ends with a nonzero status, \<^verbatim>\<open>read\<close>
  returns without a fault, the driver's state is the one before the call in every field,
  and the bus has seen the three operations of the write only: no \<^verbatim>\<open>requestFrom\<close> and no
  byte read.
\<close>

theorem read_bus_failure:
  assumes "w_status w \<noteq> 0"
  shows "read ib c w = Inr (c, w\<lparr>w_log := w_log w @
           [BeginTransmission (ADDR c), WriteByte 0, EndTransmission]\<rparr>)"
  using assms
  by (simp add: read_def wire_beginTransmission_def wire_write_def wire_endTransmission_def)

theorem read_bus_failure_witness:
  "w_status (bus 2 (sample_bytes 1 2 3)) \<noteq> 0
   \<and> read 16 (setSmoothing new_compass 5 False) (bus 2 (sample_bytes 1 2 3))
       = Inr (setSmoothing new_compass 5 False,
              (bus 2 (sample_bytes 1 2 3))\<lparr>w_log := [BeginTransmission 13, WriteByte 0, EndTransmission]\<rparr>)"
  using read_bus_failure [of "bus 2 (sample_bytes 1 2 3)" 16 "setSmoothing new_compass 5 False"]
  by (simp add: bus_def setSmoothing_def new_compass_def)

subsection \<open>Precedence of the exposed axis values\<close>

text \<open>
  C8. The getter of each axis returns the smoothed value when smoothing is enabled,
  otherwise the calibrated value when calibration is enabled, otherwise the raw value;
  smoothing wins where both are enabled.
\<close>

theorem get_precedence:
  "(smoothUse c \<longrightarrow>
      getX c = vSmooth c 0 \<and> getY c = vSmooth c 1 \<and> getZ c = vSmooth c 2)
   \<and> (\<not> smoothUse c \<and> calibrationUse c \<longrightarrow>
      getX c = vCalibrated c 0 \<and> getY c = vCalibrated c 1 \<and> getZ c = vCalibrated c 2)
   \<and> (\<not> smoothUse c \<and> \<not> calibrationUse c \<longrightarrow>
      getX c = vRaw c 0 \<and> getY c = vRaw c 1 \<and> getZ c = vRaw c 2)"
  by (simp add: getX_def getY_def getZ_def get_def)

theorem get_precedence_witness:
  "smoothUse (new_compass\<lparr>smoothUse := True, calibrationUse := True,
       vRaw := (\<lambda>i. 3), vCalibrated := (\<lambda>i. 2), vSmooth := (\<lambda>i. 1)\<rparr>)
   \<and> calibrationUse (new_compass\<lparr>smoothUse := True, calibrationUse := True,
       vRaw := (\<lambda>i. 3), vCalibrated := (\<lambda>i. 2), vSmooth := (\<lambda>i. 1)\<rparr>)
   \<and> getX (new_compass\<lparr>smoothUse := True, calibrationUse := True,
       vRaw := (\<lambda>i. 3), vCalibrated := (\<lambda>i. 2), vSmooth := (\<lambda>i. 1)\<rparr>) = 1
   \<and> getX (new_compass\<lparr>smoothUse := False, calibrationUse := True,
       vRaw := (\<lambda>i. 3), vCalibrated := (\<lambda>i. 2), vSmooth := (\<lambda>i. 1)\<rparr>) = 2
   \<and> getX (new_compass\<lparr>smoothUse := False, calibrationUse := False,
       vRaw := (\<lambda>i. 3), vCalibrated := (\<lambda>i. 2), vSmooth := (\<lambda>i. 1)\<rparr>) = 3"
  using
    get_precedence [of "new_compass\<lparr>smoothUse := True, calibrationUse := True,
       vRaw := (\<lambda>i. 3), vCalibrated := (\<lambda>i. 2), vSmooth := (\<lambda>i. 1)\<rparr>"]
    get_precedence [of "new_compass\<lparr>smoothUse := False, calibrationUse := True,
       vRaw := (\<lambda>i. 3), vCalibrated := (\<lambda>i. 2), vSmooth := (\<lambda>i. 1)\<rparr>"]
    get_precedence [of "new_compass\<lparr>smoothUse := False, calibrationUse := False,
       vRaw := (\<lambda>i. 3), vCalibrated := (\<lambda>i. 2), vSmooth := (\<lambda>i. 1)\<rparr>"]
  by (simp add: new_compass_def)


subsection \<open>Bearing and direction of an azimuth\<close>

lemma trunc_quotient:
  assumes p: "24 \<le> p" and az: "0 \<le> az" "az \<le> 360"
  shows "trunc_rat (fl_round p (of_int az / (45 / 2))) = (2 * az) div 45"
proof -
  define k where "k = (2 * az) div 45"
  define m where "m = (2 * az) mod 45"
  define x :: rat where "x = of_int az / (45 / 2)"
  define q where "q = fl_round p x"
  have km: "2 * az = 45 * k + m" by (simp add: k_def m_def)
  have k0: "0 \<le> k" "k \<le> 16" using az by (simp_all add: k_def)
  have m0: "0 \<le> m" "m < 45" by (simp_all add: m_def)
  have x: "x = of_int k + of_int m / 45"
  proof -
    have "x = of_int (2 * az) / 45" by (simp add: x_def)
    also have "\<dots> = of_int (45 * k + m) / 45" by (simp only: km)
    finally show ?thesis by (simp add: field_simps)
  qed
  show ?thesis
  proof (cases "m = 0")
    case True
    then have "x = of_int k" by (simp add: x)
    moreover have "fl_round p (of_int k) = of_int k"
      using p k0 by (intro fl_round_small_int) auto
    ultimately have "q = of_int k" by (simp add: q_def)
    then show ?thesis using k0 by (simp add: trunc_rat_def q_def x_def k_def)
  next
    case False
    then have m1: "1 \<le> m" "m \<le> 44" using m0 by auto
    have mr: "(1::rat) \<le> of_int m" "rat_of_int m \<le> 44" using m1 by simp_all
    have kr: "(0::rat) \<le> of_int k" "rat_of_int k \<le> 16" using k0 by simp_all
    have x0: "0 \<le> x" "x \<le> 17" using mr kr by (simp_all add: x)
    have "(2::rat) ^ 24 \<le> 2 ^ p" using p by (intro power_increasing) auto
    then have "\<bar>x\<bar> / 2 ^ p \<le> \<bar>x\<bar> / 2 ^ 24"
      by (intro divide_left_mono) auto
    also have "\<dots> \<le> 17 / 2 ^ 24" using x0 by simp
    also have "\<dots> < 1 / 90" by simp
    finally have "\<bar>x\<bar> / 2 ^ p < 1 / 90" .
    with fl_round_err[of p x] have err: "\<bar>q - x\<bar> < 1 / 90" unfolding q_def by (rule le_less_trans)
    have t: "1 / 45 \<le> rat_of_int m / 45" "rat_of_int m / 45 \<le> 44 / 45" using mr by simp_all
    have "q - x < 1 / 90" "x - q < 1 / 90" using err by linarith+
    then have "of_int k < q" "q < of_int k + 1" using t unfolding x by linarith+
    then have "\<lfloor>q\<rfloor> = k" "0 \<le> q" using kr by (simp_all add: floor_unique) 
    then show ?thesis by (simp add: trunc_rat_def q_def x_def k_def)
  qed
qed

lemma trunc_rat_of_int: "trunc_rat (of_int k) = k"
  by (simp add: trunc_rat_def)

lemma getBearing_value:
  assumes p: "24 \<le> dp" and az: "0 \<le> az" "az \<le> 360"
  shows "getBearing dp az = Inr (nat ((2 * az) div 45))"
proof -
  define k where "k = (2 * az) div 45"
  have k0: "0 \<le> k" "k \<le> 16" using az by (simp_all add: k_def)
  have a1: "float_of_int dp az = of_int az"
    unfolding float_of_int_def using p az by (intro fl_round_small_int) auto
  have a2: "trunc_rat (fl_round dp (of_int az / (45 / 2))) = k"
    unfolding k_def using p az by (rule trunc_quotient)
  have "fl_round dp (rat_of_int k) = of_int k" using p k0 by (intro fl_round_small_int) auto
  then have a3: "fl_round dp (of_nat (nat k)) = of_int k" using k0 by simp
  have s1: "float_to_unsigned 32 (fl_div dp (float_of_int dp az) (45 / 2)) = Inr (nat k)"
    using k0 a2 by (simp add: fl_div_def float_to_unsigned_def a1)
  have s2: "float_to_unsigned 8 (Finite (of_int k)) = Inr (nat k)"
    using k0 by (simp add: float_to_unsigned_def trunc_rat_of_int)
  show ?thesis
    unfolding getBearing_def s1 k_def [symmetric]
    by (simp add: and_then_def a3 s2)
qed

lemma bearings_row:
  assumes "d < 16"
  shows "[bearings ! d ! 0, bearings ! d ! 1, bearings ! d ! 2] = bearings ! d"
proof -
  have "\<forall>d<16. [bearings ! d ! 0, bearings ! d ! 1, bearings ! d ! 2] = bearings ! d"
    by (simp add: bearings_def All_less_Suc numeral_eq_Suc del: One_nat_def)
  then show ?thesis using assms by blast
qed

lemma getDirection_value:
  assumes p: "24 \<le> dp" and az: "0 \<le> az" "az \<le> 360"
  shows "getDirection dp az = (if az = 360 then Inl IndexOutOfBounds
           else Inr (bearings ! nat ((2 * az) div 45)))"
proof (cases "az = 360")
  case True
  then show ?thesis using getBearing_value[OF p, of 360]
    by (simp add: getDirection_def and_then_def bearings_def)
next
  case False
  then have "(2 * az) div 45 \<le> 15" using az by simp
  then have d: "nat ((2 * az) div 45) < 16" by simp
  have l: "length bearings = 16" by (simp add: bearings_def)
  show ?thesis using False d bearings_row[OF d]
    by (simp add: getDirection_def and_then_def getBearing_value[OF p az] l)
qed

text \<open>
  C9. For every azimuth from 0 to 359 \<^verbatim>\<open>getBearing\<close> returns at most 15 and the lookup of
  \<^verbatim>\<open>getDirection\<close> in the 16-row table is in bounds. For the azimuth 360 \<^verbatim>\<open>getBearing\<close>
  returns 16 and \<^verbatim>\<open>getDirection\<close> reads outside the table: the caller must keep the
  azimuth at 359 or below.
\<close>

theorem bearing_table_bounds:
  assumes "24 \<le> dp"
  shows "(\<forall>azimuth. 0 \<le> azimuth \<and> azimuth \<le> 359 \<longrightarrow>
            getBearing dp azimuth = Inr (nat ((2 * azimuth) div 45))
          \<and> nat ((2 * azimuth) div 45) \<le> 15
          \<and> getDirection dp azimuth = Inr (bearings ! nat ((2 * azimuth) div 45)))
       \<and> getBearing dp 360 = Inr 16
       \<and> length bearings = 16
       \<and> getDirection dp 360 = Inl IndexOutOfBounds"
proof -
  have "getBearing dp az = Inr (nat ((2 * az) div 45))
          \<and> nat ((2 * az) div 45) \<le> 15
          \<and> getDirection dp az = Inr (bearings ! nat ((2 * az) div 45))"
    if "0 \<le> az" "az \<le> 359" for az
    using that getBearing_value[OF assms, of az] getDirection_value[OF assms, of az] by simp
  moreover have "getBearing dp 360 = Inr 16" using getBearing_value[OF assms, of 360] by simp
  moreover have "getDirection dp 360 = Inl IndexOutOfBounds"
    using getDirection_value[OF assms, of 360] by simp
  moreover have "length bearings = 16" by (simp add: bearings_def)
  ultimately show ?thesis by blast
qed

theorem bearing_table_bounds_witness:
  "getBearing 24 359 = Inr 15 \<and> getDirection 24 359 = Inr ''NNW''
   \<and> getBearing 53 0 = Inr 0 \<and> getDirection 53 0 = Inr ''  N''
   \<and> getBearing 24 360 = Inr 16 \<and> getDirection 24 360 = Inl IndexOutOfBounds"
  using bearing_table_bounds [of 24] bearing_table_bounds [of 53]
  by (simp add: bearings_def)

text \<open>
  C1 as stated fails: at the azimuth 12 the driver returns 0 where rounding to the
  nearest gives 1, and at 359 it returns 15 where rounding modulo 16 gives 0. Both
  \<^verbatim>\<open>a\<close> and \<^verbatim>\<open>r\<close> are \<^verbatim>\<open>unsigned long\<close>, so the quotient is truncated when it is stored,
  \<^verbatim>\<open>r\<close> is 0 and \<^verbatim>\<open>r >= .5\<close> never holds.
\<close>

theorem getBearing_rounding_counterexample:
  "getBearing 24 12 = Inr 0 \<and> getBearing 53 12 = Inr 0 \<and> bearing_spec 12 = 1
   \<and> getBearing 24 359 = Inr 15 \<and> getBearing 53 359 = Inr 15 \<and> bearing_spec 359 = 0"
proof -
  have "bearing_spec 12 = 1" "bearing_spec 359 = 0" by code_simp+
  then show ?thesis
    using getBearing_value [of 24 12] getBearing_value [of 53 12]
      getBearing_value [of 24 359] getBearing_value [of 53 359]
    by simp
qed

text \<open>
  C1, amended. For every azimuth from 0 to 359 \<^verbatim>\<open>getBearing\<close> returns an integer from 0 to
  15 that differs from azimuth / 22.5 by less than 1, and when the fractional part of
  azimuth / 22.5 is below one half it is azimuth / 22.5 rounded down, as the claim says;
  nothing is reduced modulo 16. In particular the azimuths 0 and 11 give 0.
\<close>

theorem getBearing_sector:
  assumes "24 \<le> dp" and "0 \<le> azimuth" and "azimuth \<le> 359"
  shows "(\<exists>b. getBearing dp azimuth = Inr b \<and> b \<le> 15
           \<and> \<bar>rat_of_nat b - of_int azimuth / (45 / 2)\<bar> < 1
           \<and> (of_int azimuth / (45 / 2) - rat_of_int \<lfloor>rat_of_int azimuth / (45 / 2)\<rfloor> < 1 / 2
                \<longrightarrow> int b = \<lfloor>rat_of_int azimuth / (45 / 2)\<rfloor>))
         \<and> getBearing dp 0 = Inr 0 \<and> getBearing dp 11 = Inr 0"
proof -
  define k where "k = (2 * azimuth) div 45"
  define q :: rat where "q = of_int azimuth / (45 / 2)"
  have k0: "0 \<le> k" "k \<le> 15" using assms by (simp_all add: k_def)
  have "2 * azimuth = 45 * k + (2 * azimuth) mod 45" by (simp add: k_def)
  moreover have "0 \<le> (2 * azimuth) mod 45" "(2 * azimuth) mod 45 < 45" by simp_all
  ultimately have "45 * k \<le> 2 * azimuth" "2 * azimuth < 45 * k + 45" by linarith+
  then have "rat_of_int (45 * k) \<le> of_int (2 * azimuth)" "rat_of_int (2 * azimuth) < of_int (45 * k + 45)"
    by (simp_all only: of_int_le_iff of_int_less_iff)
  then have b: "of_int k \<le> q" "q < of_int k + 1"
    by (simp_all add: q_def field_simps)
  then have fl: "\<lfloor>q\<rfloor> = k" by (simp add: floor_unique)
  have "\<bar>rat_of_int k - q\<bar> < 1" using b by (simp add: abs_less_iff)
  then have "\<bar>rat_of_nat (nat k) - q\<bar> < 1" using k0 by simp
  moreover have "getBearing dp azimuth = Inr (nat k)"
    unfolding k_def using assms by (intro getBearing_value) auto
  moreover have "nat k \<le> 15" using k0 by simp
  moreover have "int (nat k) = \<lfloor>q\<rfloor>" using k0 fl by simp
  moreover have "getBearing dp 0 = Inr 0" "getBearing dp 11 = Inr 0"
    using getBearing_value [OF assms(1), of 0] getBearing_value [OF assms(1), of 11] by simp_all
  ultimately show ?thesis unfolding q_def by blast
qed

theorem getBearing_sector_witness:
  "(\<exists>b. getBearing 24 359 = Inr b \<and> b \<le> 15 \<and> \<bar>rat_of_nat b - of_int 359 / (45 / 2)\<bar> < 1
        \<and> (of_int 359 / (45 / 2) - rat_of_int \<lfloor>rat_of_int 359 / (45 / 2)\<rfloor> < 1 / 2
                \<longrightarrow> int b = \<lfloor>rat_of_int 359 / (45 / 2)\<rfloor>))
   \<and> (\<exists>b. getBearing 24 11 = Inr b \<and> b \<le> 15 \<and> \<bar>rat_of_nat b - of_int 11 / (45 / 2)\<bar> < 1
        \<and> (of_int 11 / (45 / 2) - rat_of_int \<lfloor>rat_of_int 11 / (45 / 2)\<rfloor> < 1 / 2
                \<longrightarrow> int b = \<lfloor>rat_of_int 11 / (45 / 2)\<rfloor>))
   \<and> getBearing 24 0 = Inr 0 \<and> getBearing 24 11 = Inr 0"
proof -
  have a: "(24::nat) \<le> 24" "(0::int) \<le> 359" "(359::int) \<le> 359" "(0::int) \<le> 11"
    "(11::int) \<le> 359"
    by simp_all
  from getBearing_sector [OF a(1,2,3)] getBearing_sector [OF a(1,4,5)]
  show ?thesis by blast
qed

subsection \<open>Smoothing\<close>

text \<open>Results that stay in range pass the checks unchanged.\<close>

lemma and_then_Inr: "and_then (Inr v) f = f v"
  by (simp add: and_then_def)

lemma checked_ok: "int_ok bits v \<Longrightarrow> checked bits v = Inr v"
  by (simp add: checked_def)

lemma narrow_ok:
  assumes "0 < bits" and "int_ok bits v"
  shows "narrow bits v = v"
proof -
  have p: "(2::int) ^ bits = 2 * 2 ^ (bits - 1)"
    using assms(1) by (cases bits) simp_all
  have "0 \<le> v + 2 ^ (bits - 1)" "v + 2 ^ (bits - 1) < 2 ^ bits"
    using assms(2) unfolding int_ok_def p by linarith+
  then have "(v + 2 ^ (bits - 1)) mod 2 ^ bits = v + 2 ^ (bits - 1)"
    by (rule mod_pos_pos_trivial)
  then show ?thesis by (simp add: narrow_def)
qed

lemma int_ok_abs: "\<bar>v\<bar> < 2 ^ 31 \<Longrightarrow> int_ok LONG_BITS v"
  unfolding int_ok_def LONG_BITS_def by (simp add: abs_less_iff)

lemma setSmoothing_steps: "smoothSteps (setSmoothing c steps adv) \<le> 10"
  by (simp add: setSmoothing_def)

text \<open>The loop body for one axis equals its closed form when nothing overflows.\<close>

lemma smooth_axis_step:
  assumes "axis_ok ib c i"
  shows "smooth_axis ib i c = Inr (axis_step ib i c)"
proof -
  define t1 where "t1 = (if vTotals c i \<noteq> 0 then vTotals c i - vHistory c (vScan c) i
                         else vTotals c i)"
  define c1 where "c1 = c\<lparr>vTotals := (vTotals c)(i := t1)\<rparr>"
  define c2 where "c2 = c1\<lparr>vHistory := axis_history c i\<rparr>"
  define c3 where "c3 = c2\<lparr>vTotals := (vTotals c2)(i := axis_total c i)\<rparr>"
  have s1: "drop_oldest i c = Inr c1"
  proof (cases "vTotals c i = 0")
    case True
    then have "(vTotals c)(i := t1) = vTotals c"
      using fun_upd_triv [of "vTotals c" i] by (simp add: t1_def)
    then have "c1 = c" by (simp add: c1_def)
    then show ?thesis using True by (simp add: drop_oldest_def)
  next
    case False
    then show ?thesis
      using assms by (simp add: drop_oldest_def axis_ok_def checked_ok and_then_def c1_def t1_def)
  qed
  have s2: "store_sample i c1 = c2"
    by (simp add: store_sample_def c2_def c1_def axis_history_def sample_def)
  have e3: "vTotals c2 i + vHistory c2 (vScan c2) i = axis_total c i"
    by (simp add: c2_def c1_def axis_history_def axis_total_def t1_def)
  have s3: "add_newest i c2 = Inr c3"
    using assms unfolding add_newest_def e3
    by (simp add: axis_ok_def checked_ok and_then_def c3_def)
  have f3: "vHistory c3 = axis_history c i" "vTotals c3 i = axis_total c i"
    "smoothSteps c3 = smoothSteps c" "smoothAdvanced c3 = smoothAdvanced c"
    by (simp_all add: c3_def c2_def c1_def)
  have fin: "c3\<lparr>vSmooth := (vSmooth c3)(i := q)\<rparr>
      = c\<lparr>vTotals := (vTotals c)(i := axis_total c i), vHistory := axis_history c i,
           vSmooth := (vSmooth c)(i := q)\<rparr>" for q
    by (simp add: c3_def c2_def c1_def)
  have s4: "smooth_value ib i c3 = Inr (axis_step ib i c)"
  proof (cases "smoothAdvanced c")
    case True
    have r: "int_ok ib (axis_removed c i)"
      "int_ok LONG_BITS (axis_total c i - axis_removed c i)"
      "int (smoothSteps c) - 2 \<noteq> 0"
      "int_ok LONG_BITS ((axis_total c i - axis_removed c i) sdiv (int (smoothSteps c) - 2))"
      "axis_quotient c i = (axis_total c i - axis_removed c i) sdiv (int (smoothSteps c) - 2)"
      using assms True by (simp_all add: axis_ok_def axis_quotient_def)
    show ?thesis
      unfolding smooth_value_def Let_def f3 axis_removed_def [symmetric]
      using True r(1-4)
      by (simp add: checked_ok and_then_def c_div_def fin axis_step_def r(5))
  next
    case False
    have r: "int (smoothSteps c) \<noteq> 0"
      "int_ok LONG_BITS (axis_total c i sdiv int (smoothSteps c))"
      "axis_quotient c i = axis_total c i sdiv int (smoothSteps c)"
      using assms False by (simp_all add: axis_ok_def axis_quotient_def)
    show ?thesis
      unfolding smooth_value_def f3
      using False r(1,2)
      by (simp add: checked_ok and_then_def c_div_def fin axis_step_def r(3))
  qed
  show ?thesis
    unfolding smooth_axis_def s1 by (simp add: and_then_def s2 s3 s4)
qed

lemma sdiv_abs_le: "\<bar>a sdiv b\<bar> \<le> \<bar>a\<bar>" for a b :: int
proof -
  have nn: "0 \<le> \<bar>a\<bar> div \<bar>b\<bar>"
    by (cases "b = 0") (simp_all add: pos_imp_zdiv_nonneg_iff)
  then have "\<bar>a sdiv b\<bar> = \<bar>sgn a\<bar> * \<bar>sgn b\<bar> * (\<bar>a\<bar> div \<bar>b\<bar>)"
    by (simp add: signed_divide_int_def abs_mult)
  also have "\<dots> \<le> 1 * 1 * (\<bar>a\<bar> div \<bar>b\<bar>)"
    using nn by (intro mult_right_mono mult_mono) (auto simp: abs_sgn_eq)
  also have "\<dots> \<le> \<bar>a\<bar>"
    using int_div_le_self[of "\<bar>a\<bar>" "\<bar>b\<bar>"] by (cases "a = 0") simp_all
  finally show ?thesis .
qed

lemma scan_max_cong:
  assumes "\<And>j. h' j i = h j i"
  shows "scan_max h' n i = scan_max h n i"
  by (simp add: scan_max_def assms)

lemma scan_min_cong:
  assumes "\<And>j. h' j i = h j i"
  shows "scan_min h' n i = scan_min h n i"
  by (simp add: scan_min_def assms)

lemma same_axis_start: "same_axis (c\<lparr>vScan := slot c\<rparr>) c k"
  by (simp add: same_axis_def sample_def)

lemma sample_step: "sample (axis_step ib i d) k = sample d k"
  by (simp add: sample_def axis_step_def)

lemma same_axis_step:
  assumes "same_axis d c k" and "i \<noteq> k"
  shows "same_axis (axis_step ib i d) c k"
  using assms unfolding same_axis_def sample_step
  by (simp add: axis_step_def axis_history_def)

lemma same_axis_total:
  assumes "same_axis d c k"
  shows "axis_total d k = (if vTotals c k \<noteq> 0 then vTotals c k - vHistory c (slot c) k
                           else vTotals c k) + sample c k"
  using assms by (simp add: same_axis_def axis_total_def)

lemma same_axis_history:
  assumes "same_axis d c k" and "k < 3"
  shows "axis_history d k j k = updated_history c j k"
  using assms by (simp add: same_axis_def axis_history_def updated_history_def)

lemma same_axis_removed:
  assumes "same_axis d c k" and "k < 3"
  shows "axis_removed d k = removed c k"
proof -
  have h: "\<And>j. axis_history d k j k = updated_history c j k"
    using assms by (rule same_axis_history)
  have n: "smoothSteps d = smoothSteps c" using assms(1) by (simp add: same_axis_def)
  show ?thesis
    unfolding axis_removed_def removed_def n
    by (simp only: scan_max_cong [of "axis_history d k" k "updated_history c", OF h]
        scan_min_cong [of "axis_history d k" k "updated_history c", OF h] h)
qed

lemma same_axis_ok:
  assumes s: "same_axis d c k" and k: "k < 3"
    and adv: "smoothAdvanced c" and n: "3 \<le> smoothSteps c"
    and r: "int_ok ib (removed c k)"
    and b: "\<bar>vTotals c k\<bar> + \<bar>vHistory c (slot c) k\<bar> + \<bar>sample c k\<bar> + \<bar>removed c k\<bar> < 2 ^ 31"
  shows "axis_ok ib d k"
proof -
  note t = same_axis_total [OF s]
  note rm = same_axis_removed [OF s k]
  have f: "vTotals d k = vTotals c k" "vHistory d (vScan d) k = vHistory c (slot c) k"
    "smoothAdvanced d" "smoothSteps d = smoothSteps c"
    using s adv by (simp_all add: same_axis_def)
  have a1: "\<bar>vTotals c k - vHistory c (slot c) k\<bar> < 2 ^ 31" using b by linarith
  have a2: "\<bar>axis_total d k\<bar> < 2 ^ 31" unfolding t using b by (simp split: if_splits) linarith+
  have a3: "\<bar>axis_total d k - removed c k\<bar> < 2 ^ 31"
    unfolding t using b by (simp split: if_splits) linarith+
  have "\<bar>(axis_total d k - removed c k) sdiv (int (smoothSteps c) - 2)\<bar>
         \<le> \<bar>axis_total d k - removed c k\<bar>"
    by (rule sdiv_abs_le)
  then have a4: "\<bar>(axis_total d k - removed c k) sdiv (int (smoothSteps c) - 2)\<bar> < 2 ^ 31"
    using a3 by linarith
  show ?thesis
    unfolding axis_ok_def axis_quotient_def f rm
    using f(3) n r a1 [THEN int_ok_abs] a2 [THEN int_ok_abs] a3 [THEN int_ok_abs]
      a4 [THEN int_ok_abs]
    by simp
qed

text \<open>
  The scans: the index found is at most \<open>steps - 2\<close>, holds an extreme value of the rows
  below \<open>steps - 1\<close>, and is the first row that does.
\<close>

lemma fold_max_props:
  fixes col :: "nat \<Rightarrow> int"
  defines "m k \<equiv> fold (\<lambda>j mx. if col j > col mx then j else mx) [0..<k] 0"
  shows "m k \<le> k - 1 \<and> (\<forall>j<k. col j \<le> col (m k)) \<and> (\<forall>j<m k. col j < col (m k))"
proof (induction k)
  case 0
  show ?case by (simp add: m_def)
next
  case (Suc k)
  have step: "m (Suc k) = (if col k > col (m k) then k else m k)"
    by (simp add: m_def)
  show ?case
  proof (cases "col k > col (m k)")
    case True
    then have "m (Suc k) = k" by (simp add: step)
    moreover have "\<forall>j<k. col j < col k" using Suc.IH True by fastforce
    ultimately show ?thesis by (auto simp: less_Suc_eq intro: less_imp_le)
  next
    case False
    then have "m (Suc k) = m k" by (simp add: step)
    then show ?thesis using Suc.IH False by (auto simp: less_Suc_eq)
  qed
qed

lemma scan_max_props:
  "scan_max h n i \<le> n - 2 \<and> (\<forall>j<n - 1. h j i \<le> h (scan_max h n i) i)
   \<and> (\<forall>j. j < scan_max h n i \<longrightarrow> h j i < h (scan_max h n i) i)"
  using fold_max_props[of "\<lambda>j. h j i" "n - 1"] by (simp add: scan_max_def numeral_2_eq_2)

lemma scan_min_props:
  "scan_min h n i \<le> n - 2 \<and> (\<forall>j<n - 1. h (scan_min h n i) i \<le> h j i)
   \<and> (\<forall>j. j < scan_min h n i \<longrightarrow> h (scan_min h n i) i < h j i)"
proof -
  have eq: "scan_min h n i = fold (\<lambda>j mx. if - h j i > - h mx i then j else mx) [0..<n - 1] 0"
    by (simp add: scan_min_def)
  show ?thesis
    using fold_max_props[of "\<lambda>j. - h j i" "n - 1"] unfolding eq [symmetric]
    by (simp add: numeral_2_eq_2)
qed

lemma less_3_cases: "i < 3 \<Longrightarrow> i = 0 \<or> i = 1 \<or> i = (2::nat)"
  by arith

lemma adv_formula_cong:
  assumes "vSmooth c' i = vSmooth c i" "vTotals c' i = vTotals c i"
    "\<And>j. vHistory c' j i = vHistory c j i" "smoothSteps c' = smoothSteps c"
  shows "adv_formula ib c' i = adv_formula ib c i"
  unfolding adv_formula_def assms(1,2,4)
  by (simp add: scan_max_cong[of "vHistory c'" i "vHistory c", OF assms(3)]
      scan_min_cong[of "vHistory c'" i "vHistory c", OF assms(3)] assms(3))

lemma adv_formula_step:
  "smoothAdvanced c \<Longrightarrow> adv_formula ib (axis_step ib i c) i"
  by (simp add: adv_formula_def axis_step_def axis_quotient_def axis_removed_def)

lemma adv_formula_step_other:
  "k \<noteq> i \<Longrightarrow> adv_formula ib (axis_step ib k c) i = adv_formula ib c i"
  by (rule adv_formula_cong) (simp_all add: axis_step_def axis_history_def)

lemma adv_formula_scan: "adv_formula ib (c\<lparr>vScan := s\<rparr>) i = adv_formula ib c i"
  by (rule adv_formula_cong) simp_all

lemma smoothAdvanced_step: "smoothAdvanced (axis_step ib i c) = smoothAdvanced c"
  by (simp add: axis_step_def)

lemma smoothing_smoothed:
  assumes adv: "smoothAdvanced c" and n: "3 \<le> smoothSteps c"
    and r: "\<forall>i<3. int_ok ib (removed c i)
             \<and> \<bar>vTotals c i\<bar> + \<bar>vHistory c (slot c) i\<bar> + \<bar>sample c i\<bar> + \<bar>removed c i\<bar> < 2 ^ 31"
  shows "smoothing ib c = Inr (smoothed ib c)"
proof -
  define c0 where "c0 = c\<lparr>vScan := slot c\<rparr>"
  define c1 where "c1 = axis_step ib 0 c0"
  define c2 where "c2 = axis_step ib 1 c1"
  define c3 where "c3 = axis_step ib 2 c2"
  have start: "(if int (vScan c) > int (smoothSteps c) - 1 then c\<lparr>vScan := 0\<rparr> else c) = c0"
    by (simp add: c0_def slot_def)
  have s0: "same_axis c0 c k" for k unfolding c0_def by (rule same_axis_start)
  have s1: "same_axis c1 c 1" "same_axis c1 c 2"
    unfolding c1_def by (rule same_axis_step [OF s0], simp)+
  have s2: "same_axis c2 c 2"
    unfolding c2_def by (rule same_axis_step [OF s1(2)], simp)
  have k: "(0::nat) < 3" "(1::nat) < 3" "(2::nat) < 3" by simp_all
  have ok0: "axis_ok ib c0 0"
    using r k(1) by (intro same_axis_ok [OF s0 k(1) adv n]) auto
  have ok1: "axis_ok ib c1 1"
    using r k(2) by (intro same_axis_ok [OF s1(1) k(2) adv n]) auto
  have ok2: "axis_ok ib c2 2"
    using r k(3) by (intro same_axis_ok [OF s2 k(3) adv n]) auto
  have sc: "vScan c3 = slot c"
    by (simp add: c3_def c2_def c1_def c0_def axis_step_def)
  have e: "smooth_axis ib 0 c0 = Inr c1" "smooth_axis ib 1 c1 = Inr c2"
    "smooth_axis ib 2 c2 = Inr c3"
    unfolding c1_def c2_def c3_def
    by (rule smooth_axis_step [OF ok0] smooth_axis_step [OF ok1, unfolded c1_def]
        smooth_axis_step [OF ok2, unfolded c2_def c1_def])+
  have "smoothing ib c = Inr (c3\<lparr>vScan := vScan c3 + 1\<rparr>)"
    unfolding smoothing_def start Let_def
    by (simp only: e and_then_Inr)
  then have "smoothing ib c = Inr (c3\<lparr>vScan := slot c + 1\<rparr>)"
    by (simp only: sc)
  then show ?thesis
    unfolding smoothed_def c3_def c2_def c1_def c0_def .
qed

lemma adv_formula_smoothed:
  assumes "smoothAdvanced c" "i < 3"
  shows "adv_formula ib (smoothed ib c) i"
  using less_3_cases[OF assms(2)] assms(1)
  by (auto simp: smoothed_def adv_formula_scan adv_formula_step adv_formula_step_other
      smoothAdvanced_step)

lemma smoothed_steps: "smoothSteps (smoothed ib c) = smoothSteps c"
  by (simp add: smoothed_def axis_step_def)

text \<open>The equations that evaluate a run of acquisitions on concrete samples.\<close>

lemmas eval_defs = acquire_def read_def bus_def sample_bytes_def low_byte_def high_byte_def
  wire_beginTransmission_def wire_write_def wire_endTransmission_def wire_requestFrom_def
  wire_read_def assemble16_def setSmoothing_def new_compass_def smoothing_def smooth_axis_def
  drop_oldest_def store_sample_def add_newest_def smooth_value_def checked_def int_ok_def
  narrow_def c_div_def LONG_BITS_def signed_divide_int_def scan_max_def scan_min_def
  Let_def and_then_def get_def getX_def getY_def getZ_def upt_conv_Cons

text \<open>
  C2. The claim asks for an unconditional subtraction of the value leaving the window,
  so that the running sum is the sum of the window; the driver subtracts only when the
  running sum is not 0. With window size 2 and the X samples 5, -5 the running sum is 0
  while row 0 holds 5. The next sample, 7, is added without subtracting the 5: the sum is
  7 where the window holds 7 and -5 (sum 2), and the exposed value is 3 instead of 1. The
  offset stays: after two more samples of 7 the window holds 7 and 7, the running sum is
  19 and the exposed value 9. Both widths of \<^verbatim>\<open>int\<close> give the same.
\<close>

theorem smoothing_zero_sum_drift:
  "sum_and_window (acquire_all 16 (setSmoothing new_compass 2 False) [(5, 0, 0), (- 5, 0, 0)]) 0
     = Inr (0, 0)
   \<and> sum_and_window (acquire_all 16 (setSmoothing new_compass 2 False)
        [(5, 0, 0), (- 5, 0, 0), (7, 0, 0)]) 0 = Inr (7, 2)
   \<and> exposed (acquire_all 16 (setSmoothing new_compass 2 False)
        [(5, 0, 0), (- 5, 0, 0), (7, 0, 0)]) = Inr (3, 0, 0)
   \<and> sum_and_window (acquire_all 16 (setSmoothing new_compass 2 False)
        [(5, 0, 0), (- 5, 0, 0), (7, 0, 0), (7, 0, 0), (7, 0, 0)]) 0 = Inr (19, 14)
   \<and> exposed (acquire_all 16 (setSmoothing new_compass 2 False)
        [(5, 0, 0), (- 5, 0, 0), (7, 0, 0), (7, 0, 0), (7, 0, 0)]) = Inr (9, 0, 0)
   \<and> sum_and_window (acquire_all 32 (setSmoothing new_compass 2 False)
        [(5, 0, 0), (- 5, 0, 0), (7, 0, 0)]) 0 = Inr (7, 2)
   \<and> exposed (acquire_all 32 (setSmoothing new_compass 2 False)
        [(5, 0, 0), (- 5, 0, 0), (7, 0, 0), (7, 0, 0), (7, 0, 0)]) = Inr (9, 0, 0)"
  by (simp add: sum_and_window_def window_sum_def exposed_def eval_defs)

text \<open>
  C4 as stated fails where \<^verbatim>\<open>int\<close> has 16 bits. With window size 4 and three X samples of
  20000 the scans find 20000 at both indices, and their \<^verbatim>\<open>int\<close> sum, 40000, overflows;
  with a 32-bit \<^verbatim>\<open>int\<close> the same run gives (60000 - 20000 - 20000) / 2 = 10000.
\<close>

theorem advanced_smoothing_counterexample:
  "exposed (acquire_all 16 (setSmoothing new_compass 4 True)
      [(20000, 0, 0), (20000, 0, 0), (20000, 0, 0)]) = Inl IntOverflow
   \<and> exposed (acquire_all 32 (setSmoothing new_compass 4 True)
      [(20000, 0, 0), (20000, 0, 0), (20000, 0, 0)]) = Inr (10000, 0, 0)"
  by (simp add: exposed_def eval_defs)

text \<open>
  C4, amended. In advanced mode with window size \<open>N\<close> from 3 to 10, when for each axis the
  \<^verbatim>\<open>int\<close> sum of the two values taken out fits \<^verbatim>\<open>int\<close> and the running sum, the value
  leaving the window, the new sample and that sum stay together below \<open>2 ^ 31\<close> (so that
  the \<^verbatim>\<open>long\<close> arithmetic cannot overflow), the update returns without a fault and the
  smoothed value of each axis is the running sum minus the history value at the index of
  the maximum and minus the one at the index of the minimum, divided by \<open>N - 2\<close> with C's
  integer division, reduced to the range of \<^verbatim>\<open>int\<close>: the quotient itself when it fits.
  Both indices lie in \<open>0..N - 2\<close> and each is the first index of an extreme value among
  the rows \<open>0..N - 2\<close>: row \<open>N - 1\<close> is never scanned.
\<close>

theorem advanced_smoothing_value:
  assumes ib: "ib = 16 \<or> ib = 32"
    and adv: "smoothAdvanced c" and n: "3 \<le> smoothSteps c" "smoothSteps c \<le> 10"
    and r: "\<forall>i<3. int_ok ib (removed c i)
             \<and> \<bar>vTotals c i\<bar> + \<bar>vHistory c (slot c) i\<bar> + \<bar>sample c i\<bar> + \<bar>removed c i\<bar> < 2 ^ 31"
  shows "\<exists>c'. smoothing ib c = Inr c'
     \<and> (\<forall>i<3. \<exists>mx mn.
           mx \<le> smoothSteps c - 2
         \<and> (\<forall>j. j \<le> smoothSteps c - 2 \<longrightarrow> vHistory c' j i \<le> vHistory c' mx i)
         \<and> (\<forall>j. j < mx \<longrightarrow> vHistory c' j i < vHistory c' mx i)
         \<and> mn \<le> smoothSteps c - 2
         \<and> (\<forall>j. j \<le> smoothSteps c - 2 \<longrightarrow> vHistory c' mn i \<le> vHistory c' j i)
         \<and> (\<forall>j. j < mn \<longrightarrow> vHistory c' mn i < vHistory c' j i)
         \<and> vSmooth c' i = narrow ib ((vTotals c' i - vHistory c' mx i - vHistory c' mn i)
                                       sdiv (int (smoothSteps c) - 2))
         \<and> (int_ok ib ((vTotals c' i - vHistory c' mx i - vHistory c' mn i)
                         sdiv (int (smoothSteps c) - 2))
              \<longrightarrow> vSmooth c' i = (vTotals c' i - vHistory c' mx i - vHistory c' mn i)
                                     sdiv (int (smoothSteps c) - 2)))"
proof -
  define H where "H = vHistory (smoothed ib c)"
  define N where "N = smoothSteps c"
  have pos: "0 < ib" using ib by auto
  have sm: "smoothing ib c = Inr (smoothed ib c)"
    using adv n(1) r by (rule smoothing_smoothed)
  have le: "j < N - 1 \<longleftrightarrow> j \<le> N - 2" for j using n(1) unfolding N_def by arith
  have ax: "\<exists>mx mn.
           mx \<le> N - 2
         \<and> (\<forall>j. j \<le> N - 2 \<longrightarrow> H j i \<le> H mx i)
         \<and> (\<forall>j. j < mx \<longrightarrow> H j i < H mx i)
         \<and> mn \<le> N - 2
         \<and> (\<forall>j. j \<le> N - 2 \<longrightarrow> H mn i \<le> H j i)
         \<and> (\<forall>j. j < mn \<longrightarrow> H mn i < H j i)
         \<and> vSmooth (smoothed ib c) i = narrow ib ((vTotals (smoothed ib c) i - H mx i - H mn i)
                                       sdiv (int N - 2))
         \<and> (int_ok ib ((vTotals (smoothed ib c) i - H mx i - H mn i) sdiv (int N - 2))
              \<longrightarrow> vSmooth (smoothed ib c) i = (vTotals (smoothed ib c) i - H mx i - H mn i)
                                     sdiv (int N - 2))"
    if i: "i < 3" for i
  proof -
    have f: "vSmooth (smoothed ib c) i
        = narrow ib ((vTotals (smoothed ib c) i - H (scan_max H N i) i - H (scan_min H N i) i)
                     sdiv (int N - 2))"
      using adv_formula_smoothed[OF adv i, of ib]
      by (simp add: adv_formula_def smoothed_steps H_def N_def algebra_simps)
    have g: "int_ok ib ((vTotals (smoothed ib c) i - H (scan_max H N i) i - H (scan_min H N i) i)
                     sdiv (int N - 2))
        \<longrightarrow> vSmooth (smoothed ib c) i
            = (vTotals (smoothed ib c) i - H (scan_max H N i) i - H (scan_min H N i) i)
                     sdiv (int N - 2)"
      unfolding f using narrow_ok [OF pos] by blast
    have mx: "scan_max H N i \<le> N - 2"
      "\<forall>j. j \<le> N - 2 \<longrightarrow> H j i \<le> H (scan_max H N i) i"
      "\<forall>j. j < scan_max H N i \<longrightarrow> H j i < H (scan_max H N i) i"
      using scan_max_props[of H N i] le by auto
    have mn: "scan_min H N i \<le> N - 2"
      "\<forall>j. j \<le> N - 2 \<longrightarrow> H (scan_min H N i) i \<le> H j i"
      "\<forall>j. j < scan_min H N i \<longrightarrow> H (scan_min H N i) i < H j i"
      using scan_min_props[of H N i] le by auto
    show ?thesis using f g mx mn by blast
  qed
  show ?thesis
    using sm ax unfolding H_def N_def by blast
qed

theorem advanced_smoothing_value_witness:
  "smoothAdvanced quirk_state \<and> 3 \<le> smoothSteps quirk_state \<and> smoothSteps quirk_state \<le> 10
   \<and> removed quirk_state 0 = 3
   \<and> (\<exists>c'. smoothing 16 quirk_state = Inr c'
     \<and> (\<forall>i<3. \<exists>mx mn.
           mx \<le> smoothSteps quirk_state - 2
         \<and> (\<forall>j. j \<le> smoothSteps quirk_state - 2 \<longrightarrow> vHistory c' j i \<le> vHistory c' mx i)
         \<and> (\<forall>j. j < mx \<longrightarrow> vHistory c' j i < vHistory c' mx i)
         \<and> mn \<le> smoothSteps quirk_state - 2
         \<and> (\<forall>j. j \<le> smoothSteps quirk_state - 2 \<longrightarrow> vHistory c' mn i \<le> vHistory c' j i)
         \<and> (\<forall>j. j < mn \<longrightarrow> vHistory c' mn i < vHistory c' j i)
         \<and> vSmooth c' i = narrow 16 ((vTotals c' i - vHistory c' mx i - vHistory c' mn i)
                                       sdiv (int (smoothSteps quirk_state) - 2))
         \<and> (int_ok 16 ((vTotals c' i - vHistory c' mx i - vHistory c' mn i)
                         sdiv (int (smoothSteps quirk_state) - 2))
              \<longrightarrow> vSmooth c' i = (vTotals c' i - vHistory c' mx i - vHistory c' mn i)
                                     sdiv (int (smoothSteps quirk_state) - 2))))
   \<and> sum_and_window (smoothing 16 quirk_state) 0 = Inr (103, 103)
   \<and> exposed (smoothing 16 quirk_state) = Inr (100, 100, 100)"
proof -
  have h: "smoothAdvanced quirk_state" "3 \<le> smoothSteps quirk_state" "smoothSteps quirk_state \<le> 10"
    by (simp_all add: quirk_state_def setSmoothing_def new_compass_def)
  have rm: "removed quirk_state i = 3" if "i < 3" for i
    using that
    by (simp add: removed_def updated_history_def quirk_state_def setSmoothing_def new_compass_def
        slot_def sample_def scan_max_def scan_min_def upt_conv_Cons)
  have r: "\<forall>i<3. int_ok 16 (removed quirk_state i)
             \<and> \<bar>vTotals quirk_state i\<bar> + \<bar>vHistory quirk_state (slot quirk_state) i\<bar>
                 + \<bar>sample quirk_state i\<bar> + \<bar>removed quirk_state i\<bar> < 2 ^ 31"
  proof (intro allI impI)
    fix i :: nat
    assume i: "i < 3"
    have v: "vTotals quirk_state i = 3" "vHistory quirk_state (slot quirk_state) i = 0"
      "sample quirk_state i = 100"
      by (simp_all add: quirk_state_def setSmoothing_def new_compass_def slot_def sample_def)
    show "int_ok 16 (removed quirk_state i)
             \<and> \<bar>vTotals quirk_state i\<bar> + \<bar>vHistory quirk_state (slot quirk_state) i\<bar>
                 + \<bar>sample quirk_state i\<bar> + \<bar>removed quirk_state i\<bar> < 2 ^ 31"
      unfolding rm [OF i] v by (simp add: int_ok_def)
  qed
  have e: "sum_and_window (smoothing 16 quirk_state) 0 = Inr (103, 103)"
    "exposed (smoothing 16 quirk_state) = Inr (100, 100, 100)"
    by (simp_all add: quirk_state_def sum_and_window_def window_sum_def exposed_def eval_defs)
  have w: "(16::nat) = 16 \<or> (16::nat) = 32" by simp
  show ?thesis
    using h e rm [of 0] advanced_smoothing_value [OF w h r] by simp
qed

text \<open>
  C7. A fresh driver with basic smoothing of window size 5, fed 10, 20, 30, 40, 50 (on all
  three axes), exposes 30 after the fifth sample, and 40 after a sixth sample of 60, for
  both widths of \<^verbatim>\<open>int\<close>.
\<close>

theorem basic_smoothing_example:
  "exposed (acquire_all 16 (setSmoothing new_compass 5 False)
      [(10, 10, 10), (20, 20, 20), (30, 30, 30), (40, 40, 40), (50, 50, 50)]) = Inr (30, 30, 30)
   \<and> exposed (acquire_all 16 (setSmoothing new_compass 5 False)
      [(10, 10, 10), (20, 20, 20), (30, 30, 30), (40, 40, 40), (50, 50, 50), (60, 60, 60)])
     = Inr (40, 40, 40)
   \<and> exposed (acquire_all 32 (setSmoothing new_compass 5 False)
      [(10, 10, 10), (20, 20, 20), (30, 30, 30), (40, 40, 40), (50, 50, 50)]) = Inr (30, 30, 30)
   \<and> exposed (acquire_all 32 (setSmoothing new_compass 5 False)
      [(10, 10, 10), (20, 20, 20), (30, 30, 30), (40, 40, 40), (50, 50, 50), (60, 60, 60)])
     = Inr (40, 40, 40)"
  by (simp add: exposed_def eval_defs)

subsection \<open>Calibration\<close>

lemma float_of_int_exact: "\<bar>n\<bar> < 2 ^ 24 \<Longrightarrow> float_of_int FLT_MANT_DIG n = of_int n"
  unfolding float_of_int_def FLT_MANT_DIG_def by (rule fl_round_of_int)

lemma fl_round_nonzero:
  assumes "x \<noteq> 0" and "0 < p"
  shows "fl_round p x \<noteq> 0"
proof
  assume z: "fl_round p x = 0"
  have "(2::rat) ^ 1 \<le> 2 ^ p" using assms(2) by (intro power_increasing) auto
  then have two: "(2::rat) \<le> 2 ^ p" by simp
  have "\<bar>x\<bar> \<le> \<bar>x\<bar> / 2 ^ p" using fl_round_err [of p x] by (simp add: z)
  also have "\<dots> \<le> \<bar>x\<bar> / 2" using two by (intro divide_left_mono) auto
  finally show False using assms(1) by simp
qed

lemma float_of_int_nonzero: "g \<noteq> 0 \<Longrightarrow> float_of_int FLT_MANT_DIG g \<noteq> 0"
  unfolding float_of_int_def FLT_MANT_DIG_def by (rule fl_round_nonzero) simp_all

lemma sdiv_pos: "2 \<le> a \<Longrightarrow> 1 \<le> a sdiv 2" for a :: int
  by (simp add: signed_divide_int_def sgn_if)

lemma cal_axis:
  assumes "cal_delta c i \<noteq> 0" and "int_ok ib (cal_value c i)"
  shows "float_to_int ib (fl_mul FLT_MANT_DIG (float_of_int FLT_MANT_DIG (vRaw c i - cal_offset c i))
            (fl_div FLT_MANT_DIG (float_of_int FLT_MANT_DIG (cal_avg_delta c))
               (float_of_int FLT_MANT_DIG (cal_delta c i))))
         = Inr (cal_value c i)"
  using float_of_int_nonzero [OF assms(1)] assms(2)
  by (simp add: fl_div_def fl_mul_def float_to_int_def cal_value_def cal_scale_def)

lemma applyCalibration_general:
  assumes h: "\<forall>i<3. vCalibration c i 0 + 2 \<le> vCalibration c i 1
              \<and> int_ok ib (vCalibration c i 0 + vCalibration c i 1)
              \<and> int_ok ib (vCalibration c i 1 - vCalibration c i 0)
              \<and> int_ok ib (vRaw c i - cal_offset c i)
              \<and> int_ok ib (cal_value c i)"
    and s: "int_ok ib (cal_delta c 0 + cal_delta c 1 + cal_delta c 2)"
  shows "applyCalibration ib c
           = Inr (c\<lparr>vCalibrated := (vCalibrated c)(0 := cal_value c 0, 1 := cal_value c 1,
                                                     2 := cal_value c 2)\<rparr>)"
proof -
  have k: "(0::nat) < 3" "(1::nat) < 3" "(2::nat) < 3" by simp_all
  note h0 = h [rule_format, OF k(1)] and h1 = h [rule_format, OF k(2)]
    and h2 = h [rule_format, OF k(3)]
  have d: "1 \<le> cal_delta c 0" "1 \<le> cal_delta c 1" "1 \<le> cal_delta c 2"
    unfolding cal_delta_def using h0 h1 h2 by (intro sdiv_pos, linarith)+
  have p: "(0::int) < 2 ^ (ib - 1)" by simp
  have xy: "int_ok ib (cal_delta c 0 + cal_delta c 1)"
    using s d p unfolding int_ok_def by linarith
  have sums: "checked ib (vCalibration c 0 0 + vCalibration c 0 1)
                = Inr (vCalibration c 0 0 + vCalibration c 0 1)"
    "checked ib (vCalibration c 1 0 + vCalibration c 1 1)
                = Inr (vCalibration c 1 0 + vCalibration c 1 1)"
    "checked ib (vCalibration c 2 0 + vCalibration c 2 1)
                = Inr (vCalibration c 2 0 + vCalibration c 2 1)"
    "checked ib (vCalibration c 0 1 - vCalibration c 0 0)
                = Inr (vCalibration c 0 1 - vCalibration c 0 0)"
    "checked ib (vCalibration c 1 1 - vCalibration c 1 0)
                = Inr (vCalibration c 1 1 - vCalibration c 1 0)"
    "checked ib (vCalibration c 2 1 - vCalibration c 2 0)
                = Inr (vCalibration c 2 1 - vCalibration c 2 0)"
    using h0 h1 h2 by (simp_all add: checked_ok)
  have dsum: "checked ib (cal_delta c 0 + cal_delta c 1) = Inr (cal_delta c 0 + cal_delta c 1)"
    "checked ib (cal_delta c 0 + cal_delta c 1 + cal_delta c 2)
       = Inr (cal_delta c 0 + cal_delta c 1 + cal_delta c 2)"
    using xy s by (simp_all add: checked_ok)
  have raw: "checked ib (vRaw c 0 - cal_offset c 0) = Inr (vRaw c 0 - cal_offset c 0)"
    "checked ib (vRaw c 1 - cal_offset c 1) = Inr (vRaw c 1 - cal_offset c 1)"
    "checked ib (vRaw c 2 - cal_offset c 2) = Inr (vRaw c 2 - cal_offset c 2)"
    using h0 h1 h2 by (simp_all add: checked_ok)
  have ax: "float_to_int ib (fl_mul FLT_MANT_DIG (float_of_int FLT_MANT_DIG (vRaw c i - cal_offset c i))
            (fl_div FLT_MANT_DIG (float_of_int FLT_MANT_DIG (cal_avg_delta c))
               (float_of_int FLT_MANT_DIG (cal_delta c i))))
         = Inr (cal_value c i)" if "i < 3" for i
    using d h [rule_format, OF that] less_3_cases [OF that] by (intro cal_axis) auto
  show ?thesis
    unfolding applyCalibration_def sums and_then_Inr Let_def
      cal_delta_def [symmetric] cal_offset_def [symmetric] dsum cal_avg_delta_def [symmetric]
      raw ax [OF k(1)] ax [OF k(2)] ax [OF k(3)]
    by (rule refl)
qed


lemma fl_round_one: "fl_round FLT_MANT_DIG 1 = 1"
  using fl_round_of_int [of 1 24] by (simp add: FLT_MANT_DIG_def)

lemma int_ok_16bit:
  assumes "ib = 16 \<or> ib = 32" and "- 32768 \<le> v" and "v \<le> 32767"
  shows "int_ok ib v"
  using assms by (auto simp: int_ok_def)

lemma cal_value_symmetric:
  assumes s: "\<forall>i<3. vCalibration c i 0 = - 100 \<and> vCalibration c i 1 = 100
                \<and> - 32768 \<le> vRaw c i \<and> vRaw c i \<le> 32767"
    and i: "i < 3"
  shows "cal_offset c i = 0" "cal_delta c i = 100" "cal_avg_delta c = 100"
    "cal_value c i = vRaw c i"
proof -
  have d: "cal_delta c k = 100" if "k < 3" for k
    using s that by (simp add: cal_delta_def signed_divide_int_def)
  show o: "cal_offset c i = 0" using s i by (simp add: cal_offset_def)
  show "cal_delta c i = 100" using i by (rule d)
  have d3: "cal_delta c 0 = 100" "cal_delta c 1 = 100" "cal_delta c 2 = 100"
    by (rule d, simp)+
  show a: "cal_avg_delta c = 100"
    unfolding cal_avg_delta_def d3 by (simp add: signed_divide_int_def)
  have h: "float_of_int FLT_MANT_DIG 100 = 100"
    using float_of_int_exact [of 100] by simp
  have "\<bar>vRaw c i\<bar> < 2 ^ 24" using s i by (auto simp: abs_less_iff)
  then have raw: "float_of_int FLT_MANT_DIG (vRaw c i) = of_int (vRaw c i)"
    by (rule float_of_int_exact)
  have raw2: "fl_round FLT_MANT_DIG (of_int (vRaw c i)) = of_int (vRaw c i)"
    using raw by (simp add: float_of_int_def)
  show "cal_value c i = vRaw c i"
    by (simp add: cal_value_def cal_scale_def o a d [OF i] h raw fl_round_one raw2 trunc_rat_of_int)
qed

lemma cal_value_unit_scale:
  assumes "cal_avg_delta c = cal_delta c i" and "cal_delta c i \<noteq> 0"
    and "\<bar>cal_delta c i\<bar> < 2 ^ 24" and "\<bar>vRaw c i - cal_offset c i\<bar> < 2 ^ 24"
  shows "cal_value c i = vRaw c i - cal_offset c i"
proof -
  have "float_of_int FLT_MANT_DIG (cal_delta c i) = of_int (cal_delta c i)"
    using assms(3) by (rule float_of_int_exact)
  then have sc: "cal_scale c i = 1"
    using assms(1,2) by (simp add: cal_scale_def fl_round_one)
  have r: "float_of_int FLT_MANT_DIG (vRaw c i - cal_offset c i) = of_int (vRaw c i - cal_offset c i)"
    using assms(4) by (rule float_of_int_exact)
  have "fl_round FLT_MANT_DIG (rat_of_int (vRaw c i - cal_offset c i))
          = of_int (vRaw c i - cal_offset c i)"
    using r by (simp only: float_of_int_def)
  then show ?thesis
    unfolding cal_value_def sc r by (simp only: mult_1_right trunc_rat_of_int)
qed

text \<open>
  C5 as stated fails: bounds with \<open>min < max\<close> can have a half range of 0. With the bounds
  0 and 1 on the X axis \<^verbatim>\<open>x_avg_delta\<close> is 0, the scale is a division by zero, and the
  conversion of the product to \<^verbatim>\<open>int\<close> is undefined, for both widths of \<^verbatim>\<open>int\<close>. Where
  \<^verbatim>\<open>int\<close> has 16 bits the bounds 20000 and 30000 overflow in \<^verbatim>\<open>min + max\<close>.
\<close>

theorem applyCalibration_counterexample:
  "acquire 16 (setCalibration new_compass 0 1 (- 100) 100 (- 100) 100) (10, 10, 10)
     = Inl FloatToIntUndefined
   \<and> acquire 32 (setCalibration new_compass 0 1 (- 100) 100 (- 100) 100) (10, 10, 10)
     = Inl FloatToIntUndefined
   \<and> acquire 16 (setCalibration new_compass 20000 30000 (- 100) 100 (- 100) 100) (10, 10, 10)
     = Inl IntOverflow"
  by (simp add: eval_defs setCalibration_def applyCalibration_def float_of_int_def fl_round_def
      fl_div_def fl_mul_def float_to_int_def)

text \<open>
  C5, amended. With an \<^verbatim>\<open>int\<close> of 16 or 32 bits and bounds with \<open>min + 2 \<le> max\<close> on each
  axis, when no \<^verbatim>\<open>int\<close> operation leaves the range of \<^verbatim>\<open>int\<close> (the sum and the
  difference of the bounds, raw minus offset and the calibrated value of each axis, and
  the sum of the three half ranges), \<^verbatim>\<open>_applyCalibration\<close> returns without a fault, changes
  the calibrated values only, and sets each to the \<^verbatim>\<open>float\<close> product of raw minus offset
  and the scale, truncated; the offset, the half ranges, their mean and the scale are as
  the claim words them. With the bounds -100 and 100 on the three axes and 16-bit raw
  values the calibrated value is the raw value.
\<close>

theorem applyCalibration_value:
  assumes ib: "ib = 16 \<or> ib = 32"
  shows "((\<forall>i<3. vCalibration c i 0 + 2 \<le> vCalibration c i 1
              \<and> int_ok ib (vCalibration c i 0 + vCalibration c i 1)
              \<and> int_ok ib (vCalibration c i 1 - vCalibration c i 0)
              \<and> int_ok ib (vRaw c i - cal_offset c i)
              \<and> int_ok ib (cal_value c i))
          \<and> int_ok ib (cal_delta c 0 + cal_delta c 1 + cal_delta c 2)
          \<longrightarrow> applyCalibration ib c
                = Inr (c\<lparr>vCalibrated := (vCalibrated c)(0 := cal_value c 0, 1 := cal_value c 1,
                                                          2 := cal_value c 2)\<rparr>))
      \<and> ((\<forall>i<3. vCalibration c i 0 = - 100 \<and> vCalibration c i 1 = 100
                \<and> - 32768 \<le> vRaw c i \<and> vRaw c i \<le> 32767)
          \<longrightarrow> applyCalibration ib c
                = Inr (c\<lparr>vCalibrated := (vCalibrated c)(0 := vRaw c 0, 1 := vRaw c 1,
                                                          2 := vRaw c 2)\<rparr>))"
proof (intro conjI impI)
  assume "(\<forall>i<3. vCalibration c i 0 + 2 \<le> vCalibration c i 1
              \<and> int_ok ib (vCalibration c i 0 + vCalibration c i 1)
              \<and> int_ok ib (vCalibration c i 1 - vCalibration c i 0)
              \<and> int_ok ib (vRaw c i - cal_offset c i)
              \<and> int_ok ib (cal_value c i))
          \<and> int_ok ib (cal_delta c 0 + cal_delta c 1 + cal_delta c 2)"
  then show "applyCalibration ib c
                = Inr (c\<lparr>vCalibrated := (vCalibrated c)(0 := cal_value c 0, 1 := cal_value c 1,
                                                          2 := cal_value c 2)\<rparr>)"
    by (intro applyCalibration_general) blast+
next
  assume s: "\<forall>i<3. vCalibration c i 0 = - 100 \<and> vCalibration c i 1 = 100
                \<and> - 32768 \<le> vRaw c i \<and> vRaw c i \<le> 32767"
  note v = cal_value_symmetric [OF s]
  have k: "(0::nat) < 3" "(1::nat) < 3" "(2::nat) < 3" by simp_all
  have h: "\<forall>i<3. vCalibration c i 0 + 2 \<le> vCalibration c i 1
              \<and> int_ok ib (vCalibration c i 0 + vCalibration c i 1)
              \<and> int_ok ib (vCalibration c i 1 - vCalibration c i 0)
              \<and> int_ok ib (vRaw c i - cal_offset c i)
              \<and> int_ok ib (cal_value c i)"
  proof (intro allI impI)
    fix i :: nat
    assume i: "i < 3"
    have b: "vCalibration c i 0 = - 100" "vCalibration c i 1 = 100"
      "- 32768 \<le> vRaw c i" "vRaw c i \<le> 32767"
      using s i by auto
    show "vCalibration c i 0 + 2 \<le> vCalibration c i 1
              \<and> int_ok ib (vCalibration c i 0 + vCalibration c i 1)
              \<and> int_ok ib (vCalibration c i 1 - vCalibration c i 0)
              \<and> int_ok ib (vRaw c i - cal_offset c i)
              \<and> int_ok ib (cal_value c i)"
      unfolding v(1) [OF i] v(4) [OF i] b(1,2)
      using int_ok_16bit [OF ib b(3,4)] int_ok_16bit [OF ib, of 0] int_ok_16bit [OF ib, of 200]
      by simp
  qed
  have t: "int_ok ib (cal_delta c 0 + cal_delta c 1 + cal_delta c 2)"
    unfolding v(2) [OF k(1)] v(2) [OF k(2)] v(2) [OF k(3)]
    using int_ok_16bit [OF ib, of 300] by simp
  show "applyCalibration ib c
                = Inr (c\<lparr>vCalibrated := (vCalibrated c)(0 := vRaw c 0, 1 := vRaw c 1,
                                                          2 := vRaw c 2)\<rparr>)"
    unfolding applyCalibration_general [OF h t] v(4) [OF k(1)] v(4) [OF k(2)] v(4) [OF k(3)]
    by (rule refl)
qed

theorem applyCalibration_value_witness:
  "applyCalibration 16 tilted
     = Inr (tilted\<lparr>vCalibrated := (\<lambda>i. 0)(0 := 40, 1 := 50, 2 := 50)\<rparr>)
   \<and> applyCalibration 16 ((setCalibration new_compass (- 100) 100 (- 100) 100 (- 100) 100)
       \<lparr>vRaw := (\<lambda>i. - 1234)\<rparr>)
     = Inr ((setCalibration new_compass (- 100) 100 (- 100) 100 (- 100) 100)
       \<lparr>vRaw := (\<lambda>i. - 1234), vCalibrated := (\<lambda>i. 0)(0 := - 1234, 1 := - 1234, 2 := - 1234)\<rparr>)"
proof -
  have w: "(16::nat) = 16 \<or> (16::nat) = 32" by simp
  have f: "vCalibration tilted 0 0 = - 90" "vCalibration tilted 0 1 = 110"
    "vCalibration tilted 1 0 = - 100" "vCalibration tilted 1 1 = 100"
    "vCalibration tilted 2 0 = - 100" "vCalibration tilted 2 1 = 100"
    "vRaw tilted = (\<lambda>i. 50)" "vCalibrated tilted = (\<lambda>i. 0)"
    by (simp_all add: tilted_def setCalibration_def new_compass_def)
  have o: "cal_offset tilted 0 = 10" "cal_offset tilted 1 = 0" "cal_offset tilted 2 = 0"
    unfolding cal_offset_def f by (simp_all add: signed_divide_int_def)
  have d: "cal_delta tilted 0 = 100" "cal_delta tilted 1 = 100" "cal_delta tilted 2 = 100"
    unfolding cal_delta_def f by (simp_all add: signed_divide_int_def)
  have a: "cal_avg_delta tilted = 100"
    unfolding cal_avg_delta_def d by (simp add: signed_divide_int_def)
  have v: "cal_value tilted 0 = 40" "cal_value tilted 1 = 50" "cal_value tilted 2 = 50"
    using cal_value_unit_scale [of tilted 0] cal_value_unit_scale [of tilted 1]
      cal_value_unit_scale [of tilted 2]
    unfolding a d o f by simp_all
  have h: "\<forall>i<3. vCalibration tilted i 0 + 2 \<le> vCalibration tilted i 1
              \<and> int_ok 16 (vCalibration tilted i 0 + vCalibration tilted i 1)
              \<and> int_ok 16 (vCalibration tilted i 1 - vCalibration tilted i 0)
              \<and> int_ok 16 (vRaw tilted i - cal_offset tilted i)
              \<and> int_ok 16 (cal_value tilted i)"
  proof (intro allI impI)
    fix i :: nat
    assume "i < 3"
    then consider "i = 0" | "i = 1" | "i = 2" using less_3_cases by blast
    then show "vCalibration tilted i 0 + 2 \<le> vCalibration tilted i 1
              \<and> int_ok 16 (vCalibration tilted i 0 + vCalibration tilted i 1)
              \<and> int_ok 16 (vCalibration tilted i 1 - vCalibration tilted i 0)
              \<and> int_ok 16 (vRaw tilted i - cal_offset tilted i)
              \<and> int_ok 16 (cal_value tilted i)"
      by cases (simp_all only: f o v, simp_all add: int_ok_def)
  qed
  have t: "int_ok 16 (cal_delta tilted 0 + cal_delta tilted 1 + cal_delta tilted 2)"
    unfolding d by (simp add: int_ok_def)
  have s: "\<forall>i<3. vCalibration ((setCalibration new_compass (- 100) 100 (- 100) 100 (- 100) 100)
                   \<lparr>vRaw := (\<lambda>i. - 1234)\<rparr>) i 0 = - 100
              \<and> vCalibration ((setCalibration new_compass (- 100) 100 (- 100) 100 (- 100) 100)
                   \<lparr>vRaw := (\<lambda>i. - 1234)\<rparr>) i 1 = 100
              \<and> - 32768 \<le> vRaw ((setCalibration new_compass (- 100) 100 (- 100) 100 (- 100) 100)
                   \<lparr>vRaw := (\<lambda>i. - 1234)\<rparr>) i
              \<and> vRaw ((setCalibration new_compass (- 100) 100 (- 100) 100 (- 100) 100)
                   \<lparr>vRaw := (\<lambda>i. - 1234)\<rparr>) i \<le> 32767"
    by (simp add: setCalibration_def)
  have g1: "applyCalibration 16 tilted
           = Inr (tilted\<lparr>vCalibrated := (vCalibrated tilted)(0 := cal_value tilted 0,
                    1 := cal_value tilted 1, 2 := cal_value tilted 2)\<rparr>)"
    using applyCalibration_value [OF w, of tilted] h t by blast
  have g2: "applyCalibration 16 ((setCalibration new_compass (- 100) 100 (- 100) 100 (- 100) 100)
       \<lparr>vRaw := (\<lambda>i. - 1234)\<rparr>)
     = Inr ((setCalibration new_compass (- 100) 100 (- 100) 100 (- 100) 100)
       \<lparr>vRaw := (\<lambda>i. - 1234), vCalibrated := (\<lambda>i. 0)(0 := - 1234, 1 := - 1234, 2 := - 1234)\<rparr>)"
    using applyCalibration_value [OF w, of "(setCalibration new_compass (- 100) 100 (- 100) 100 (- 100) 100)
       \<lparr>vRaw := (\<lambda>i. - 1234)\<rparr>"] s
    by (simp add: setCalibration_def new_compass_def)
  show ?thesis
    using g1 g2 unfolding v f(8) by simp
qed

end
